theory Spec2Isabelle
  imports Main "HOL-Library.Word" "HOL-Library.Sublist" "HOL-Library.Monad_Syntax"
begin

section \<open>Strings, dates and the task record\<close>

text \<open>
  A JavaScript string is a sequence of 16-bit code units. \<open>js\<close> turns an ASCII literal
  into such a sequence, so that concrete inputs can be written down.
\<close>

type_synonym jschar = "16 word"
type_synonym jsstring = "jschar list"

definition js :: "string \<Rightarrow> jsstring" where
  "js s = map (\<lambda>c. of_nat (of_char c)) s"

text \<open>
  \<open>String.prototype.trim\<close> removes the code units that are WhiteSpace or LineTerminator
  in ECMAScript from both ends: TAB, LF, VT, FF, CR, SP, NBSP, U+1680, U+2000 to U+200A,
  U+2028, U+2029, U+202F, U+205F, U+3000 and U+FEFF.
\<close>

definition is_ws :: "jschar \<Rightarrow> bool" where
  "is_ws c \<longleftrightarrow>
     c = 0x0009 \<or> c = 0x000A \<or> c = 0x000B \<or> c = 0x000C \<or> c = 0x000D \<or> c = 0x0020 \<or>
     c = 0x00A0 \<or> c = 0x1680 \<or> (0x2000 \<le> c \<and> c \<le> 0x200A) \<or> c = 0x2028 \<or> c = 0x2029 \<or>
     c = 0x202F \<or> c = 0x205F \<or> c = 0x3000 \<or> c = 0xFEFF"

definition trim :: "jsstring \<Rightarrow> jsstring" where
  "trim s = rev (dropWhile is_ws (rev (dropWhile is_ws s)))"

text \<open>
  \<open>Number.prototype.toString\<close> on an integer in the range of time values: the decimal
  digits, after a minus sign when negative.
\<close>

fun nat_dec :: "nat \<Rightarrow> jsstring" where
  "nat_dec n = (if n < 10 then [of_nat (48 + n)] else nat_dec (n div 10) @ [of_nat (48 + n mod 10)])"

declare nat_dec.simps [simp del]

definition Number_toString :: "int \<Rightarrow> jsstring" where
  "Number_toString n = (if n < 0 then 0x2D # nat_dec (nat (- n)) else nat_dec (nat n))"

text \<open>
  A \<open>Date\<close> object holds a time value, an integral number of milliseconds since the
  epoch, or NaN (an invalid date).
\<close>

datatype Date = TimeValue int | InvalidDate

text \<open>\<open>interface Todo\<close>. The fields \<open>id\<close> and \<open>text\<close> are named \<open>id_t\<close> and \<open>text_t\<close>.\<close>

record Todo =
  id_t :: jsstring
  text_t :: jsstring
  completed :: bool
  createdAt :: Date

text \<open>The filter is the union type \<open>'all' | 'active' | 'completed'\<close>.\<close>

datatype filter_t = F_all | F_active | F_completed

text \<open>
  The five \<open>useState\<close> cells of \<open>App\<close>. \<open>editingId\<close> is \<open>string | null\<close>.
\<close>

record app_state =
  todos :: "Todo list"
  newTodo :: jsstring
  filter_st :: filter_t
  editingId :: "jsstring option"
  editText :: jsstring

definition initial_state :: app_state where
  "initial_state = \<lparr>todos = [], newTodo = [], filter_st = F_all, editingId = None, editText = []\<rparr>"

section \<open>Time values and the date-time string format\<close>

text \<open>
  The day arithmetic of ECMAScript (Day, TimeWithinDay, DayFromYear, the leap-year rule,
  MonthFromTime, DateFromTime). \<open>int\<close> division rounds down, as \<open>floor\<close> does.
\<close>

definition msPerDay :: int where
  "msPerDay = 86400000"

definition Day :: "int \<Rightarrow> int" where
  "Day t = t div msPerDay"

definition TimeWithinDay :: "int \<Rightarrow> int" where
  "TimeWithinDay t = t mod msPerDay"

definition DayFromYear :: "int \<Rightarrow> int" where
  "DayFromYear y = 365 * (y - 1970) + (y - 1969) div 4 - (y - 1901) div 100 + (y - 1601) div 400"

definition InLeapYear :: "int \<Rightarrow> int" where
  "InLeapYear y =
     (if y mod 4 \<noteq> 0 then 0 else if y mod 100 \<noteq> 0 then 1 else if y mod 400 \<noteq> 0 then 0 else 1)"

text \<open>
  The year of a day number is the largest \<open>y\<close> with \<open>DayFromYear y \<le> d\<close>. It is computed
  from the estimate \<open>1970 + 400 d div 146097\<close>, which is off by at most one
  (\<open>YearFromDay_bounds\<close> below).
\<close>

definition YearFromDay :: "int \<Rightarrow> int" where
  "YearFromDay d =
     (let y = 1970 + (400 * d) div 146097
      in if DayFromYear (y + 1) \<le> d then y + 1 else if DayFromYear y \<le> d then y else y - 1)"

text \<open>
  \<open>month_start m l\<close> is the day within the year on which month \<open>m\<close> (from 0) starts,
  \<open>l\<close> being 1 in a leap year; \<open>MonthFromDay\<close> is the table of MonthFromTime.
\<close>

definition month_start :: "int \<Rightarrow> int \<Rightarrow> int" where
  "month_start m l =
     (if m = 0 then 0 else if m = 1 then 31 else if m = 2 then 59 + l else if m = 3 then 90 + l
      else if m = 4 then 120 + l else if m = 5 then 151 + l else if m = 6 then 181 + l
      else if m = 7 then 212 + l else if m = 8 then 243 + l else if m = 9 then 273 + l
      else if m = 10 then 304 + l else if m = 11 then 334 + l else 365 + l)"

definition MonthFromDay :: "int \<Rightarrow> int \<Rightarrow> int" where
  "MonthFromDay d l =
     (if d < 31 then 0 else if d < 59 + l then 1 else if d < 90 + l then 2 else if d < 120 + l then 3
      else if d < 151 + l then 4 else if d < 181 + l then 5 else if d < 212 + l then 6
      else if d < 243 + l then 7 else if d < 273 + l then 8 else if d < 304 + l then 9
      else if d < 334 + l then 10 else 11)"

definition DaysInMonth :: "int \<Rightarrow> int \<Rightarrow> int" where
  "DaysInMonth y mo = month_start mo (InLeapYear y) - month_start (mo - 1) (InLeapYear y)"

text \<open>Decimal fields of fixed width.\<close>

definition is_digit :: "jschar \<Rightarrow> bool" where
  "is_digit c \<longleftrightarrow> 0x30 \<le> c \<and> c \<le> 0x39"

definition digit_char :: "nat \<Rightarrow> jschar" where
  "digit_char d = of_nat (48 + d)"

fun pad :: "nat \<Rightarrow> nat \<Rightarrow> jsstring" where
  "pad 0 n = []"
| "pad (Suc k) n = pad k (n div 10) @ [digit_char (n mod 10)]"

text \<open>
  \<open>Date.prototype.toISOString\<close> on a time value: \<open>YYYY-MM-DDTHH:mm:ss.sssZ\<close>, the year
  written with a sign and six digits when it is not between 0 and 9999.
\<close>

definition year_string :: "int \<Rightarrow> jsstring" where
  "year_string y =
     (if 0 \<le> y \<and> y \<le> 9999 then pad 4 (nat y)
      else (if y < 0 then 0x2D else 0x2B) # pad 6 (nat \<bar>y\<bar>))"

definition toISOString :: "int \<Rightarrow> jsstring" where
  "toISOString t =
     (let d = Day t; w = TimeWithinDay t;
          y = YearFromDay d; l = InLeapYear y;
          diy = d - DayFromYear y;
          m = MonthFromDay diy l;
          dt = diy - month_start m l + 1
      in year_string y @ 0x2D # pad 2 (nat (m + 1)) @ 0x2D # pad 2 (nat dt) @
         0x54 # pad 2 (nat (w div 3600000)) @ 0x3A # pad 2 (nat (w div 60000 mod 60)) @
         0x3A # pad 2 (nat (w div 1000 mod 60)) @ 0x2E # pad 3 (nat (w mod 1000)) @ [0x5A])"

text \<open>
  Reading the same format back. \<open>parse_iso\<close> accepts exactly the strings of the form
  \<open>YYYY-MM-DDTHH:mm:ss.sssZ\<close> or \<open>\<plusminus>YYYYYY-MM-DDTHH:mm:ss.sssZ\<close> whose fields are in range,
  and gives the time value MakeDate (MakeDay \<dots>) (MakeTime \<dots>) of the fields.
\<close>

definition digit_val :: "jschar \<Rightarrow> nat" where
  "digit_val c = unat c - 48"

definition digits_val :: "jsstring \<Rightarrow> nat" where
  "digits_val cs = foldl (\<lambda>a c. 10 * a + digit_val c) 0 cs"

definition take_digits :: "nat \<Rightarrow> jsstring \<Rightarrow> (nat \<times> jsstring) option" where
  "take_digits k cs =
     (if k \<le> length cs \<and> list_all is_digit (take k cs)
      then Some (digits_val (take k cs), drop k cs) else None)"

definition expect :: "jschar \<Rightarrow> jsstring \<Rightarrow> jsstring option" where
  "expect c cs = (case cs of [] \<Rightarrow> None | d # r \<Rightarrow> if d = c then Some r else None)"

definition parse_year :: "jsstring \<Rightarrow> (int \<times> jsstring) option" where
  "parse_year cs =
     (case cs of
        [] \<Rightarrow> None
      | c # r \<Rightarrow>
          if c = 0x2B then map_option (\<lambda>(n, r'). (int n, r')) (take_digits 6 r)
          else if c = 0x2D then
            (case take_digits 6 r of
               None \<Rightarrow> None
             | Some (n, r') \<Rightarrow> if n = 0 then None else Some (- int n, r'))
          else map_option (\<lambda>(n, r'). (int n, r')) (take_digits 4 cs))"

definition parse_iso :: "jsstring \<Rightarrow> int option" where
  "parse_iso cs = do {
     (y, r) \<leftarrow> parse_year cs;
     r \<leftarrow> expect 0x2D r;
     (mo, r) \<leftarrow> take_digits 2 r;
     r \<leftarrow> expect 0x2D r;
     (dd, r) \<leftarrow> take_digits 2 r;
     r \<leftarrow> expect 0x54 r;
     (h, r) \<leftarrow> take_digits 2 r;
     r \<leftarrow> expect 0x3A r;
     (mi, r) \<leftarrow> take_digits 2 r;
     r \<leftarrow> expect 0x3A r;
     (s, r) \<leftarrow> take_digits 2 r;
     r \<leftarrow> expect 0x2E r;
     (ms, r) \<leftarrow> take_digits 3 r;
     r \<leftarrow> expect 0x5A r;
     if r = [] \<and> 1 \<le> mo \<and> mo \<le> 12 \<and> 1 \<le> dd \<and> int dd \<le> DaysInMonth y (int mo) \<and>
        h \<le> 23 \<and> mi \<le> 59 \<and> s \<le> 59
     then Some ((DayFromYear y + month_start (int mo - 1) (InLeapYear y) + int dd - 1) * msPerDay
                + int h * 3600000 + int mi * 60000 + int s * 1000 + int ms)
     else None
   }"

text \<open>
  A time value is at most 8.64e15 milliseconds from the epoch; TimeClip turns anything
  further away into NaN.
\<close>

definition valid_time :: "int \<Rightarrow> bool" where
  "valid_time t \<longleftrightarrow> \<bar>t\<bar> \<le> 8640000000000000"

definition TimeClip :: "int \<Rightarrow> Date" where
  "TimeClip t = (if valid_time t then TimeValue t else InvalidDate)"

definition valid_Date :: "Date \<Rightarrow> bool" where
  "valid_Date d = (case d of TimeValue t \<Rightarrow> valid_time t | InvalidDate \<Rightarrow> False)"

section \<open>JSON text\<close>

text \<open>
  The values \<open>JSON.parse\<close> can return. A number keeps its literal, since its value as a
  double is not needed here. An object keeps its members in the order of the text; where
  a key is repeated, reading the property gives the last value.
\<close>

datatype json = JNull | JBool bool | JNum jsstring | JStr jsstring
  | JArr "json list" | JObj "(jsstring \<times> json) list"

subsection \<open>\<open>JSON.parse\<close>\<close>

definition json_ws :: "jschar \<Rightarrow> bool" where
  "json_ws c \<longleftrightarrow> c = 0x09 \<or> c = 0x0A \<or> c = 0x0D \<or> c = 0x20"

definition skip_ws :: "jsstring \<Rightarrow> jsstring" where
  "skip_ws cs = dropWhile json_ws cs"

definition hex_val :: "jschar \<Rightarrow> nat option" where
  "hex_val c =
     (if 0x30 \<le> c \<and> c \<le> 0x39 then Some (unat c - 0x30)
      else if 0x41 \<le> c \<and> c \<le> 0x46 then Some (unat c - 0x37)
      else if 0x61 \<le> c \<and> c \<le> 0x66 then Some (unat c - 0x57)
      else None)"

definition hex4 :: "jschar \<Rightarrow> jschar \<Rightarrow> jschar \<Rightarrow> jschar \<Rightarrow> jschar option" where
  "hex4 a b c d =
     (case (hex_val a, hex_val b, hex_val c, hex_val d) of
        (Some x, Some y, Some z, Some w) \<Rightarrow> Some (of_nat (x * 4096 + y * 256 + z * 16 + w))
      | _ \<Rightarrow> None)"

text \<open>
  The character after a backslash: a quote, a backslash, a slash, or one of
  \<open>b f n r t\<close>.
\<close>

definition unescape :: "jschar \<Rightarrow> jschar option" where
  "unescape e =
     (if e = 0x22 then Some 0x22
      else if e = 0x5C then Some 0x5C
      else if e = 0x2F then Some 0x2F
      else if e = 0x62 then Some 0x08
      else if e = 0x66 then Some 0x0C
      else if e = 0x6E then Some 0x0A
      else if e = 0x72 then Some 0x0D
      else if e = 0x74 then Some 0x09
      else None)"

definition consed :: "'a \<Rightarrow> ('a list \<times> 'b) option \<Rightarrow> ('a list \<times> 'b) option" where
  "consed x r = map_option (\<lambda>(xs, rest). (x # xs, rest)) r"

text \<open>
  The characters of a string, after its opening quote, up to the closing one. A code
  unit below U+0020 is not allowed unescaped.
\<close>

fun parse_chars :: "jsstring \<Rightarrow> (jsstring \<times> jsstring) option" where
  "parse_chars [] = None"
| "parse_chars (c # cs) =
     (if c = 0x22 then Some ([], cs)
      else if c = 0x5C then
        (case cs of
           [] \<Rightarrow> None
         | e # r \<Rightarrow>
             if e = 0x75 then
               (case r of
                  h1 # h2 # h3 # h4 # r' \<Rightarrow>
                    (case hex4 h1 h2 h3 h4 of
                       None \<Rightarrow> None
                     | Some u \<Rightarrow> consed u (parse_chars r'))
                | _ \<Rightarrow> None)
             else
               (case unescape e of
                  None \<Rightarrow> None
                | Some u \<Rightarrow> consed u (parse_chars r)))
      else if c < 0x20 then None
      else consed c (parse_chars cs))"

fun strip_prefix :: "jsstring \<Rightarrow> jsstring \<Rightarrow> jsstring option" where
  "strip_prefix [] cs = Some cs"
| "strip_prefix (p # ps) [] = None"
| "strip_prefix (p # ps) (c # cs) = (if p = c then strip_prefix ps cs else None)"

text \<open>
  A number: an optional minus, \<open>0\<close> or digits not starting with \<open>0\<close>, an optional
  fraction, an optional exponent. The result is the literal and the rest of the input.
\<close>

definition parse_digits :: "jsstring \<Rightarrow> (jsstring \<times> jsstring) option" where
  "parse_digits cs = (if takeWhile is_digit cs = [] then None
                      else Some (takeWhile is_digit cs, dropWhile is_digit cs))"

definition parse_int_part :: "jsstring \<Rightarrow> (jsstring \<times> jsstring) option" where
  "parse_int_part cs =
     (case cs of
        [] \<Rightarrow> None
      | d # r \<Rightarrow> if d = 0x30 then Some ([d], r) else parse_digits cs)"

definition parse_frac :: "jsstring \<Rightarrow> (jsstring \<times> jsstring) option" where
  "parse_frac cs =
     (case cs of
        [] \<Rightarrow> Some ([], cs)
      | d # r \<Rightarrow> if d = 0x2E then consed d (parse_digits r) else Some ([], cs))"

definition parse_exp :: "jsstring \<Rightarrow> (jsstring \<times> jsstring) option" where
  "parse_exp cs =
     (case cs of
        [] \<Rightarrow> Some ([], cs)
      | e # r \<Rightarrow>
          if e = 0x65 \<or> e = 0x45 then
            (case r of
               [] \<Rightarrow> None
             | sg # r' \<Rightarrow> if sg = 0x2B \<or> sg = 0x2D then consed e (consed sg (parse_digits r'))
                          else consed e (parse_digits r))
          else Some ([], cs))"

definition parse_number :: "jsstring \<Rightarrow> (jsstring \<times> jsstring) option" where
  "parse_number cs = do {
     (sg, r0) \<leftarrow> (case cs of [] \<Rightarrow> Some ([], cs)
                   | c # r \<Rightarrow> if c = 0x2D then Some ([c], r) else Some ([], cs));
     (ip, r1) \<leftarrow> parse_int_part r0;
     (fp, r2) \<leftarrow> parse_frac r1;
     (ep, r3) \<leftarrow> parse_exp r2;
     Some (sg @ ip @ fp @ ep, r3)
   }"

text \<open>
  Values, the elements of an array after its \<open>[\<close>, and the members of an object after
  its \<open>{\<close>. The first argument bounds the number of nested calls; \<open>JSON_parse\<close> starts
  with a bound that every text of that length stays below (\<open>JSON_parse_any_bound\<close>
  below), since every other call consumes a character.
\<close>

fun parse_value :: "nat \<Rightarrow> jsstring \<Rightarrow> (json \<times> jsstring) option"
  and parse_elements :: "nat \<Rightarrow> jsstring \<Rightarrow> (json list \<times> jsstring) option"
  and parse_members :: "nat \<Rightarrow> jsstring \<Rightarrow> ((jsstring \<times> json) list \<times> jsstring) option"
where
  "parse_value 0 cs = None"
| "parse_value (Suc n) cs =
     (case skip_ws cs of
        [] \<Rightarrow> None
      | c # r \<Rightarrow>
          if c = 0x7B then
            (case skip_ws r of
               [] \<Rightarrow> None
             | d # r' \<Rightarrow> if d = 0x7D then Some (JObj [], r')
                         else map_option (\<lambda>(ms, rest). (JObj ms, rest)) (parse_members n (d # r')))
          else if c = 0x5B then
            (case skip_ws r of
               [] \<Rightarrow> None
             | d # r' \<Rightarrow> if d = 0x5D then Some (JArr [], r')
                         else map_option (\<lambda>(vs, rest). (JArr vs, rest)) (parse_elements n (d # r')))
          else if c = 0x22 then map_option (\<lambda>(s, rest). (JStr s, rest)) (parse_chars r)
          else if c = 0x74 then map_option (\<lambda>rest. (JBool True, rest)) (strip_prefix (js ''rue'') r)
          else if c = 0x66 then map_option (\<lambda>rest. (JBool False, rest)) (strip_prefix (js ''alse'') r)
          else if c = 0x6E then map_option (\<lambda>rest. (JNull, rest)) (strip_prefix (js ''ull'') r)
          else map_option (\<lambda>(l, rest). (JNum l, rest)) (parse_number (c # r)))"
| "parse_elements 0 cs = None"
| "parse_elements (Suc n) cs =
     (case parse_value n cs of
        None \<Rightarrow> None
      | Some (v, r) \<Rightarrow>
          (case skip_ws r of
             [] \<Rightarrow> None
           | c # r' \<Rightarrow> if c = 0x2C then consed v (parse_elements n r')
                       else if c = 0x5D then Some ([v], r')
                       else None))"
| "parse_members 0 cs = None"
| "parse_members (Suc n) cs =
     (case skip_ws cs of
        [] \<Rightarrow> None
      | q # r \<Rightarrow>
          if q \<noteq> 0x22 then None
          else
            (case parse_chars r of
               None \<Rightarrow> None
             | Some (k, r1) \<Rightarrow>
                 (case skip_ws r1 of
                    [] \<Rightarrow> None
                  | c # r2 \<Rightarrow>
                      if c \<noteq> 0x3A then None
                      else
                        (case parse_value n r2 of
                           None \<Rightarrow> None
                         | Some (v, r3) \<Rightarrow>
                             (case skip_ws r3 of
                                [] \<Rightarrow> None
                              | d # r4 \<Rightarrow> if d = 0x2C then consed (k, v) (parse_members n r4)
                                          else if d = 0x7D then Some ([(k, v)], r4)
                                          else None)))))"

text \<open>\<open>JSON.parse\<close>: one value, with nothing but white space after it. \<open>None\<close> is SyntaxError.\<close>

definition JSON_parse :: "jsstring \<Rightarrow> json option" where
  "JSON_parse s =
     (case parse_value (2 * length s + 2) s of
        None \<Rightarrow> None
      | Some (v, rest) \<Rightarrow> if skip_ws rest = [] then Some v else None)"

subsection \<open>\<open>JSON.stringify\<close> on an array of tasks\<close>

text \<open>
  QuoteJSONString: the two-character escapes, the six-character escape with four
  lower-case hexadecimal digits for the other code units below U+0020 and for a
  surrogate that is not part of a pair, and every other code unit as it is.
\<close>

definition is_lead :: "jschar \<Rightarrow> bool" where
  "is_lead c \<longleftrightarrow> 0xD800 \<le> c \<and> c \<le> 0xDBFF"

definition is_trail :: "jschar \<Rightarrow> bool" where
  "is_trail c \<longleftrightarrow> 0xDC00 \<le> c \<and> c \<le> 0xDFFF"

definition hex_digit :: "nat \<Rightarrow> jschar" where
  "hex_digit n = (if n < 10 then of_nat (48 + n) else of_nat (87 + n))"

definition unicode_escape :: "jschar \<Rightarrow> jsstring" where
  "unicode_escape c =
     [0x5C, 0x75, hex_digit (unat c div 4096), hex_digit (unat c div 256 mod 16),
      hex_digit (unat c div 16 mod 16), hex_digit (unat c mod 16)]"

definition quote_unit :: "jschar \<Rightarrow> jsstring" where
  "quote_unit c =
     (if c = 0x08 then [0x5C, 0x62]
      else if c = 0x09 then [0x5C, 0x74]
      else if c = 0x0A then [0x5C, 0x6E]
      else if c = 0x0C then [0x5C, 0x66]
      else if c = 0x0D then [0x5C, 0x72]
      else if c = 0x22 then [0x5C, 0x22]
      else if c = 0x5C then [0x5C, 0x5C]
      else if c < 0x20 then unicode_escape c
      else [c])"

fun quote_chars :: "jsstring \<Rightarrow> jsstring" where
  "quote_chars [] = []"
| "quote_chars [c] = (if is_lead c \<or> is_trail c then unicode_escape c else quote_unit c)"
| "quote_chars (c # d # cs) =
     (if is_lead c \<and> is_trail d then c # d # quote_chars cs
      else if is_lead c \<or> is_trail c then unicode_escape c @ quote_chars (d # cs)
      else quote_unit c @ quote_chars (d # cs))"

definition QuoteJSONString :: "jsstring \<Rightarrow> jsstring" where
  "QuoteJSONString s = 0x22 # quote_chars s @ [0x22]"

text \<open>
  \<open>Date.prototype.toJSON\<close> gives \<open>null\<close> for an invalid date and the
  \<open>toISOString\<close> form otherwise.
\<close>

definition stringify_Date :: "Date \<Rightarrow> jsstring" where
  "stringify_Date d =
     (case d of TimeValue t \<Rightarrow> QuoteJSONString (toISOString t) | InvalidDate \<Rightarrow> js ''null'')"

text \<open>
  A task is written with its four properties in the order in which \<open>addTodo\<close> creates
  them; the elements of the array are separated by commas, with no white space.
\<close>

definition stringify_Todo :: "Todo \<Rightarrow> jsstring" where
  "stringify_Todo todo =
     0x7B # QuoteJSONString (js ''id'') @ 0x3A # QuoteJSONString (id_t todo) @
     0x2C # QuoteJSONString (js ''text'') @ 0x3A # QuoteJSONString (text_t todo) @
     0x2C # QuoteJSONString (js ''completed'') @ 0x3A #
       (if completed todo then js ''true'' else js ''false'') @
     0x2C # QuoteJSONString (js ''createdAt'') @ 0x3A # stringify_Date (createdAt todo) @ [0x7D]"

fun join_commas :: "jsstring list \<Rightarrow> jsstring" where
  "join_commas [] = []"
| "join_commas [x] = x"
| "join_commas (x # y # ys) = x @ 0x2C # join_commas (y # ys)"

definition JSON_stringify :: "Todo list \<Rightarrow> jsstring" where
  "JSON_stringify ts = 0x5B # join_commas (map stringify_Todo ts) @ [0x5D]"

text \<open>The values that the text written for a date, a task and an array of tasks denotes.\<close>

definition toJSON_Date :: "Date \<Rightarrow> json" where
  "toJSON_Date d = (case d of TimeValue t \<Rightarrow> JStr (toISOString t) | InvalidDate \<Rightarrow> JNull)"

definition toJSON_Todo :: "Todo \<Rightarrow> json" where
  "toJSON_Todo todo =
     JObj [(js ''id'', JStr (id_t todo)), (js ''text'', JStr (text_t todo)),
           (js ''completed'', JBool (completed todo)),
           (js ''createdAt'', toJSON_Date (createdAt todo))]"

section \<open>The operations of the component\<close>

text \<open>The setters the input fields and the filter buttons call.\<close>

definition setNewTodo :: "jsstring \<Rightarrow> app_state \<Rightarrow> app_state" where
  "setNewTodo v s = s\<lparr>newTodo := v\<rparr>"


definition setFilter :: "filter_t \<Rightarrow> app_state \<Rightarrow> app_state" where
  "setFilter f s = s\<lparr>filter_st := f\<rparr>"

text \<open>
  \<open>addTodo\<close> reads the clock twice: \<open>Date.now()\<close> for the id and \<open>new Date()\<close> for
  \<open>createdAt\<close>. Both readings are arguments of the model.
\<close>

definition addTodo :: "int \<Rightarrow> Date \<Rightarrow> app_state \<Rightarrow> app_state" where
  "addTodo now created s =
     (if trim (newTodo s) = [] then s
      else
        let newTodoItem = \<lparr>id_t = Number_toString now, text_t = trim (newTodo s),
                           completed = False, createdAt = created\<rparr>
        in s\<lparr>todos := newTodoItem # todos s, newTodo := []\<rparr>)"

definition deleteTodo :: "jsstring \<Rightarrow> app_state \<Rightarrow> app_state" where
  "deleteTodo i s = s\<lparr>todos := filter (\<lambda>todo. id_t todo \<noteq> i) (todos s)\<rparr>"

definition toggleTodo :: "jsstring \<Rightarrow> app_state \<Rightarrow> app_state" where
  "toggleTodo i s =
     s\<lparr>todos := map (\<lambda>todo. if id_t todo = i then todo\<lparr>completed := \<not> completed todo\<rparr> else todo)
                    (todos s)\<rparr>"


definition saveEdit :: "app_state \<Rightarrow> app_state" where
  "saveEdit s =
     (if trim (editText s) = [] then s
      else s\<lparr>todos := map (\<lambda>todo. if Some (id_t todo) = editingId s
                                   then todo\<lparr>text_t := trim (editText s)\<rparr> else todo)
                          (todos s),
             editingId := None, editText := []\<rparr>)"


definition filteredTodos :: "app_state \<Rightarrow> Todo list" where
  "filteredTodos s =
     filter (\<lambda>todo. if filter_st s = F_active then \<not> completed todo
                     else if filter_st s = F_completed then completed todo
                     else True)
            (todos s)"

definition activeCount :: "app_state \<Rightarrow> nat" where
  "activeCount s = length (filter (\<lambda>todo. \<not> completed todo) (todos s))"

definition completedCount :: "app_state \<Rightarrow> nat" where
  "completedCount s = length (todos s) - activeCount s"

section \<open>Loading the saved tasks\<close>

text \<open>
  The exceptions the load effect can meet. Its \<open>catch\<close> block takes any of them.
\<close>

datatype js_error = SyntaxError | TypeError

text \<open>
  \<open>new Date(v)\<close> on a value read from JSON. An absent property (\<open>undefined\<close>) gives an
  invalid date, \<open>null\<close> gives time value 0 and a boolean 0 or 1; a string in the
  date-time format gives its time value, clipped. What the constructor does with a
  number, an array, an object, or a string in another format depends on double
  arithmetic, on ToPrimitive (which can throw) and on the host's own date formats: it is
  the parameter \<open>host\<close> of the model.
\<close>

type_synonym host = "json \<Rightarrow> js_error + Date"

definition new_Date :: "host \<Rightarrow> json option \<Rightarrow> js_error + Date" where
  "new_Date host v =
     (case v of
        None \<Rightarrow> Inr InvalidDate
      | Some JNull \<Rightarrow> Inr (TimeValue 0)
      | Some (JBool b) \<Rightarrow> Inr (TimeValue (if b then 1 else 0))
      | Some (JStr s) \<Rightarrow>
          (case parse_iso s of Some t \<Rightarrow> Inr (TimeClip t) | None \<Rightarrow> host (JStr s))
      | Some x \<Rightarrow> host x)"

text \<open>
  The objects the \<open>map\<close> callback builds: property lists whose values are JSON values
  or, for \<open>createdAt\<close>, a \<open>Date\<close>. As for \<open>JObj\<close>, the last entry of a key is its value.
\<close>

datatype js_value = Json json | DateObj Date

type_synonym js_object = "(jsstring \<times> js_value) list"

definition obj_get :: "js_object \<Rightarrow> jsstring \<Rightarrow> js_value option" where
  "obj_get obj k = map_of (rev obj) k"

text \<open>
  \<open>todo.createdAt\<close>: TypeError on \<open>null\<close>, the property of an object, and \<open>undefined\<close>
  on a number, a boolean, a string or an array.
\<close>

definition get_createdAt :: "json \<Rightarrow> js_error + json option" where
  "get_createdAt todo =
     (case todo of
        JNull \<Rightarrow> Inl TypeError
      | JObj ms \<Rightarrow> Inr (map_of (rev ms) (js ''createdAt''))
      | _ \<Rightarrow> Inr None)"

text \<open>
  \<open>...todo\<close> copies the own enumerable properties: the members of an object, the
  elements of an array and the code units of a string under their indices, nothing for
  a number, a boolean or \<open>null\<close>.
\<close>

definition indexed :: "'a list \<Rightarrow> (jsstring \<times> 'a) list" where
  "indexed xs = zip (map nat_dec [0..<length xs]) xs"

definition spread :: "json \<Rightarrow> js_object" where
  "spread todo =
     (case todo of
        JObj ms \<Rightarrow> map (\<lambda>(k, v). (k, Json v)) ms
      | JArr xs \<Rightarrow> map (\<lambda>(k, v). (k, Json v)) (indexed xs)
      | JStr s \<Rightarrow> map (\<lambda>(k, c). (k, Json (JStr [c]))) (indexed s)
      | _ \<Rightarrow> [])"

text \<open>The callback \<open>todo => ({...todo, createdAt: new Date(todo.createdAt)})\<close>.\<close>

definition revive :: "host \<Rightarrow> json \<Rightarrow> js_error + js_object" where
  "revive host todo =
     (case get_createdAt todo of
        Inl e \<Rightarrow> Inl e
      | Inr v \<Rightarrow>
          (case new_Date host v of
             Inl e \<Rightarrow> Inl e
           | Inr d \<Rightarrow> Inr (spread todo @ [(js ''createdAt'', DateObj d)])))"

fun map_revive :: "host \<Rightarrow> json list \<Rightarrow> js_error + js_object list" where
  "map_revive host [] = Inr []"
| "map_revive host (todo # rest) =
     (case revive host todo of
        Inl e \<Rightarrow> Inl e
      | Inr obj \<Rightarrow>
          (case map_revive host rest of
             Inl e \<Rightarrow> Inl e
           | Inr objs \<Rightarrow> Inr (obj # objs)))"

text \<open>
  The body of the load effect, on the result of \<open>localStorage.getItem('todos')\<close>
  (\<open>None\<close> is \<open>null\<close>). \<open>NoSnapshot\<close>: the \<open>if (saved)\<close> is not entered. \<open>Caught e\<close>: the
  \<open>try\<close> block threw \<open>e\<close>, and the \<open>catch\<close> block logged it with \<open>console.error\<close>;
  \<open>setTodos\<close> was not called. \<open>Loaded objs\<close>: \<open>setTodos(objs)\<close> was called. Calling
  \<open>map\<close> on a parsed value that is not an array is a TypeError.
\<close>

datatype load_outcome = NoSnapshot | Caught js_error | Loaded "js_object list"

definition load_todos :: "host \<Rightarrow> jsstring option \<Rightarrow> load_outcome" where
  "load_todos host saved =
     (case saved of
        None \<Rightarrow> NoSnapshot
      | Some str \<Rightarrow>
          if str = [] then NoSnapshot
          else
            (case JSON_parse str of
               None \<Rightarrow> Caught SyntaxError
             | Some (JArr items) \<Rightarrow>
                 (case map_revive host items of
                    Inl e \<Rightarrow> Caught e
                  | Inr objs \<Rightarrow> Loaded objs)
             | Some _ \<Rightarrow> Caught TypeError))"

text \<open>
  What the effect writes to the console: the \<open>catch\<close> block calls \<open>console.error\<close>
  with a fixed message and the error; nothing else in the effect logs.
\<close>

definition console_output :: "load_outcome \<Rightarrow> (jsstring \<times> js_error) list" where
  "console_output outcome =
     (case outcome of
        Caught e \<Rightarrow> [(js ''Failed to parse todos from localStorage'', e)]
      | _ \<Rightarrow> [])"

text \<open>
  The callback's parameter has type \<open>any\<close>, so nothing checks that the objects passed to
  \<open>setTodos\<close> are \<open>Todo\<close>s. \<open>as_Todo\<close> reads an object as a \<open>Todo\<close> when its four
  properties have the declared types (properties beyond these four are dropped), and
  \<open>load\<close> is the effect on the state. Its result is \<open>None\<close> when some loaded object is
  not a \<open>Todo\<close>: the operations above, which are typed, say nothing about such a state.
\<close>

definition as_Todo :: "js_object \<Rightarrow> Todo option" where
  "as_Todo obj =
     (case obj_get obj (js ''id'') of
        Some (Json (JStr i)) \<Rightarrow>
          (case obj_get obj (js ''text'') of
             Some (Json (JStr t)) \<Rightarrow>
               (case obj_get obj (js ''completed'') of
                  Some (Json (JBool c)) \<Rightarrow>
                    (case obj_get obj (js ''createdAt'') of
                       Some (DateObj d) \<Rightarrow>
                         Some \<lparr>id_t = i, text_t = t, completed = c, createdAt = d\<rparr>
                     | _ \<Rightarrow> None)
                | _ \<Rightarrow> None)
           | _ \<Rightarrow> None)
      | _ \<Rightarrow> None)"

definition load :: "host \<Rightarrow> jsstring option \<Rightarrow> app_state \<Rightarrow> app_state option" where
  "load host saved s =
     (case load_todos host saved of
        NoSnapshot \<Rightarrow> Some s
      | Caught e \<Rightarrow> Some s
      | Loaded objs \<Rightarrow> map_option (\<lambda>ts. s\<lparr>todos := ts\<rparr>) (those (map as_Todo objs)))"

text \<open>The save effect writes \<open>JSON.stringify(todos)\<close> to the same slot.\<close>

definition save :: "app_state \<Rightarrow> jsstring" where
  "save s = JSON_stringify (todos s)"

section \<open>Runs of the component\<close>





section \<open>Predicates used in the statements\<close>

definition is_array :: "json \<Rightarrow> bool" where
  "is_array v = (case v of JArr xs \<Rightarrow> True | _ \<Rightarrow> False)"

text \<open>
  The record layout that the specification gives for the persisted slot: an object whose
  \<open>id\<close>, \<open>text\<close> and \<open>createdAt\<close> are strings and whose \<open>completed\<close> is a boolean. The
  source has no such check; the predicate only serves to state what a shape mismatch is.
\<close>

definition spec_record_shape :: "json \<Rightarrow> bool" where
  "spec_record_shape v =
     (case v of
        JObj ms \<Rightarrow>
          (case map_of (rev ms) (js ''id'') of
             Some (JStr i) \<Rightarrow>
               (case map_of (rev ms) (js ''text'') of
                  Some (JStr t) \<Rightarrow>
                    (case map_of (rev ms) (js ''completed'') of
                       Some (JBool c) \<Rightarrow>
                         (case map_of (rev ms) (js ''createdAt'') of
                            Some (JStr d) \<Rightarrow> True
                          | _ \<Rightarrow> False)
                     | _ \<Rightarrow> False)
                | _ \<Rightarrow> False)
           | _ \<Rightarrow> False)
      | _ \<Rightarrow> False)"







text \<open>
  A host for concrete runs: its \<open>Date\<close> constructor gives an invalid date for every
  value that \<open>new_Date\<close> leaves to it.
\<close>

definition host_invalid :: host where
  "host_invalid v = Inr InvalidDate"

section \<open>Properties of the list operations\<close>

lemma is_ws_space: "is_ws 0x20"
  by (simp add: is_ws_def)

lemma trim_Nil: "trim [] = []"
  by (simp add: trim_def)

text \<open>
  C4. With a draft that trims to the empty string, \<open>saveEdit\<close> changes nothing: the
  tasks, the id of the edited task and the draft are all as before, so the edit session
  stays open.
\<close>

theorem saveEdit_empty_draft_keeps_session:
  "editingId s = Some i \<Longrightarrow> trim (editText s) = [] \<Longrightarrow>
     saveEdit s = s \<and> todos (saveEdit s) = todos s \<and>
     editingId (saveEdit s) = Some i \<and> editText (saveEdit s) = editText s"
  by (simp add: saveEdit_def)

theorem saveEdit_empty_draft_keeps_session_witness:
  "saveEdit (initial_state\<lparr>editingId := Some (js ''7''), editText := js ''  ''\<rparr>)
     = initial_state\<lparr>editingId := Some (js ''7''), editText := js ''  ''\<rparr>"
  using saveEdit_empty_draft_keeps_session
    [of "initial_state\<lparr>editingId := Some (js ''7''), editText := js ''  ''\<rparr>" "js ''7''"]
  by (simp add: trim_def js_def is_ws_def)

text \<open>
  C10. When the text of the input field trims to the empty string, \<open>addTodo\<close> returns at
  once: the collection, and the rest of the state, are as before.
\<close>

theorem addTodo_blank_unchanged:
  "trim t = [] \<Longrightarrow>
     addTodo now created (setNewTodo t s) = setNewTodo t s \<and>
     todos (addTodo now created (setNewTodo t s)) = todos s"
  by (simp add: addTodo_def setNewTodo_def)

theorem addTodo_blank_unchanged_witness:
  "trim (js ''   '') = [] \<and> trim (js []) = [] \<and>
   todos (addTodo 5 (TimeValue 5) (setNewTodo (js ''   '') initial_state)) = todos initial_state"
  using addTodo_blank_unchanged [of "js ''   ''" 5 "TimeValue 5" initial_state]
  by (simp add: trim_def js_def is_ws_def setNewTodo_def)

text \<open>
  C9. \<open>toggleTodo\<close> and \<open>deleteTodo\<close> with an id that no task has leave the state as it
  is. Neither has an error path.
\<close>

theorem toggle_delete_missing_id:
  "i \<notin> id_t ` set (todos s) \<Longrightarrow> toggleTodo i s = s \<and> deleteTodo i s = s"
proof -
  assume a: "i \<notin> id_t ` set (todos s)"
  have m: "map (\<lambda>todo. if id_t todo = i then todo\<lparr>completed := \<not> completed todo\<rparr> else todo)
             (todos s) = todos s"
    using a by (intro map_idI) auto
  have f: "filter (\<lambda>todo. id_t todo \<noteq> i) (todos s) = todos s"
    using a by (auto intro: filter_True)
  show ?thesis by (simp add: toggleTodo_def deleteTodo_def m f)
qed

theorem toggle_delete_missing_id_witness:
  "js ''2'' \<notin> id_t ` set (todos (addTodo 1 (TimeValue 1) (setNewTodo (js ''a'') initial_state))) \<and>
   toggleTodo (js ''2'') (addTodo 1 (TimeValue 1) (setNewTodo (js ''a'') initial_state))
     = addTodo 1 (TimeValue 1) (setNewTodo (js ''a'') initial_state) \<and>
   deleteTodo (js ''2'') (addTodo 1 (TimeValue 1) (setNewTodo (js ''a'') initial_state))
     = addTodo 1 (TimeValue 1) (setNewTodo (js ''a'') initial_state)"
proof -
  have h: "js ''2'' \<notin> id_t ` set (todos (addTodo 1 (TimeValue 1) (setNewTodo (js ''a'') initial_state)))"
    by (simp add: addTodo_def setNewTodo_def initial_state_def trim_def js_def is_ws_def
        Number_toString_def nat_dec.simps)
  show ?thesis using h toggle_delete_missing_id [OF h] by simp
qed

text \<open>
  C8. Toggling the same id twice gives back the state it started from, so every task,
  the one with that id included, has its original \<open>completed\<close> value. A single toggle
  does negate the value of each task with that id.
\<close>

lemma toggleTodo_flips:
  "map completed (todos (toggleTodo i s))
     = map (\<lambda>todo. if id_t todo = i then \<not> completed todo else completed todo) (todos s)"
  by (simp add: toggleTodo_def comp_def if_distrib cong: if_cong)

theorem toggleTodo_twice:
  "toggleTodo i (toggleTodo i s) = s \<and>
   map completed (todos (toggleTodo i (toggleTodo i s))) = map completed (todos s)"
proof -
  have "map ((\<lambda>todo. if id_t todo = i then todo\<lparr>completed := \<not> completed todo\<rparr> else todo) \<circ>
             (\<lambda>todo. if id_t todo = i then todo\<lparr>completed := \<not> completed todo\<rparr> else todo))
          (todos s) = todos s"
    by (intro map_idI) simp
  then have "toggleTodo i (toggleTodo i s) = s"
    by (simp add: toggleTodo_def)
  then show ?thesis by simp
qed

text \<open>
  C6. \<open>filteredTodos\<close> keeps, in the order of the collection, exactly the tasks that are
  not completed under \<open>'active'\<close>, exactly the completed ones under \<open>'completed'\<close>, and
  every task under \<open>'all'\<close>.
\<close>

theorem filteredTodos_by_filter:
  "(filter_st s = F_active \<longrightarrow> filteredTodos s = filter (\<lambda>todo. completed todo = False) (todos s)) \<and>
   (filter_st s = F_completed \<longrightarrow> filteredTodos s = filter (\<lambda>todo. completed todo = True) (todos s)) \<and>
   (filter_st s = F_all \<longrightarrow> filteredTodos s = todos s) \<and>
   subseq (filteredTodos s) (todos s)"
  by (cases "filter_st s") (simp_all add: filteredTodos_def)

theorem filteredTodos_by_filter_witness:
  "filteredTodos (setFilter F_active (initial_state\<lparr>todos := [\<lparr>id_t = js ''1'', text_t = js ''a'', completed = False, createdAt = TimeValue 1\<rparr>, \<lparr>id_t = js ''2'', text_t = js ''b'', completed = True, createdAt = TimeValue 2\<rparr>]\<rparr>)) = [\<lparr>id_t = js ''1'', text_t = js ''a'', completed = False, createdAt = TimeValue 1\<rparr>] \<and>
   filteredTodos (setFilter F_completed (initial_state\<lparr>todos := [\<lparr>id_t = js ''1'', text_t = js ''a'', completed = False, createdAt = TimeValue 1\<rparr>, \<lparr>id_t = js ''2'', text_t = js ''b'', completed = True, createdAt = TimeValue 2\<rparr>]\<rparr>)) = [\<lparr>id_t = js ''2'', text_t = js ''b'', completed = True, createdAt = TimeValue 2\<rparr>] \<and>
   filteredTodos (setFilter F_all (initial_state\<lparr>todos := [\<lparr>id_t = js ''1'', text_t = js ''a'', completed = False, createdAt = TimeValue 1\<rparr>, \<lparr>id_t = js ''2'', text_t = js ''b'', completed = True, createdAt = TimeValue 2\<rparr>]\<rparr>)) = [\<lparr>id_t = js ''1'', text_t = js ''a'', completed = False, createdAt = TimeValue 1\<rparr>, \<lparr>id_t = js ''2'', text_t = js ''b'', completed = True, createdAt = TimeValue 2\<rparr>]"
  using filteredTodos_by_filter [of "setFilter F_active (initial_state\<lparr>todos := [\<lparr>id_t = js ''1'', text_t = js ''a'', completed = False, createdAt = TimeValue 1\<rparr>, \<lparr>id_t = js ''2'', text_t = js ''b'', completed = True, createdAt = TimeValue 2\<rparr>]\<rparr>)"]
    filteredTodos_by_filter [of "setFilter F_completed (initial_state\<lparr>todos := [\<lparr>id_t = js ''1'', text_t = js ''a'', completed = False, createdAt = TimeValue 1\<rparr>, \<lparr>id_t = js ''2'', text_t = js ''b'', completed = True, createdAt = TimeValue 2\<rparr>]\<rparr>)"]
    filteredTodos_by_filter [of "setFilter F_all (initial_state\<lparr>todos := [\<lparr>id_t = js ''1'', text_t = js ''a'', completed = False, createdAt = TimeValue 1\<rparr>, \<lparr>id_t = js ''2'', text_t = js ''b'', completed = True, createdAt = TimeValue 2\<rparr>]\<rparr>)"]
  by (simp add: setFilter_def initial_state_def)

text \<open>
  What \<open>addTodo\<close> does when the text does not trim to the empty string: it puts one new
  task in front of the unchanged collection, not completed, with the trimmed text, and
  with the decimal form of the clock reading as its id.
\<close>

lemma addTodo_prepends:
  "trim t \<noteq> [] \<Longrightarrow>
     todos (addTodo now created (setNewTodo t s))
       = \<lparr>id_t = Number_toString now, text_t = trim t, completed = False, createdAt = created\<rparr>
           # todos s"
  by (simp add: addTodo_def setNewTodo_def)

lemma addTodo_length:
  "trim t \<noteq> [] \<Longrightarrow> length (todos (addTodo now created (setNewTodo t s))) = Suc (length (todos s))"
  by (simp add: addTodo_prepends)

section \<open>The bound of the parser\<close>

lemma length_skip_ws: "length (skip_ws cs) \<le> length cs"
  by (simp add: skip_ws_def length_dropWhile_le)

lemma skip_ws_Cons_length: "skip_ws cs = c # r \<Longrightarrow> length r < length cs"
  using length_skip_ws [of cs] by simp

lemma parse_chars_length: "parse_chars cs = Some (s, r) \<Longrightarrow> length r < length cs"
proof (induction cs arbitrary: s r rule: parse_chars.induct)
  case 1
  then show ?case by simp
next
  case (2 c cs)
  show ?case
    using "2.prems" "2.IH"
    by (fastforce simp: consed_def split: if_splits list.splits option.splits)
qed

lemma strip_prefix_length: "strip_prefix p cs = Some r \<Longrightarrow> length r \<le> length cs"
  by (induction p cs rule: strip_prefix.induct) (auto split: if_splits)

lemma parse_digits_length: "parse_digits cs = Some (d, r) \<Longrightarrow> length r \<le> length cs"
  by (auto simp: parse_digits_def length_dropWhile_le split: if_splits)

lemma parse_number_length: "parse_number cs = Some (l, r) \<Longrightarrow> length r \<le> length cs"
proof -
  assume a: "parse_number cs = Some (l, r)"
  then obtain sg r0 ip r1 fp r2 ep where
    s: "(case cs of [] \<Rightarrow> Some ([], cs) | c # r \<Rightarrow> if c = 0x2D then Some ([c], r) else Some ([], cs)) = Some (sg, r0)"
    and i: "parse_int_part r0 = Some (ip, r1)" and f: "parse_frac r1 = Some (fp, r2)"
    and e: "parse_exp r2 = Some (ep, r)"
    by (auto simp: parse_number_def split: Option.bind_splits)
  have "length r0 \<le> length cs" using s by (auto split: list.splits if_splits)
  moreover have "length r1 \<le> length r0"
    using i parse_digits_length by (fastforce simp: parse_int_part_def split: list.splits if_splits)
  moreover have "length r2 \<le> length r1"
    using f parse_digits_length by (fastforce simp: parse_frac_def consed_def split: list.splits if_splits)
  moreover have "length r \<le> length r2"
    using e parse_digits_length by (fastforce simp: parse_exp_def consed_def split: list.splits if_splits)
  ultimately show ?thesis by simp
qed
lemma parse_length:
  "(\<forall>cs v r. parse_value n cs = Some (v, r) \<longrightarrow> length r \<le> length cs) \<and>
   (\<forall>cs vs r. parse_elements n cs = Some (vs, r) \<longrightarrow> length r \<le> length cs) \<and>
   (\<forall>cs ms r. parse_members n cs = Some (ms, r) \<longrightarrow> length r \<le> length cs)"
proof (induction n)
  case 0
  show ?case by simp
next
  case (Suc n)
  have V: "length r \<le> length cs" if h: "parse_value (Suc n) cs = Some (v, r)" for cs v r
  proof -
    obtain c r0 where s: "skip_ws cs = c # r0"
      by (cases "skip_ws cs") (use h in \<open>simp_all\<close>)
    have l0: "length r0 < length cs" using s by (rule skip_ws_Cons_length)
    have "length r \<le> length (c # r0)"
    proof -
      consider (obj) "c = 0x7B" | (arr) "c \<noteq> 0x7B" "c = 0x5B" | (str) "c \<noteq> 0x7B" "c \<noteq> 0x5B" "c = 0x22"
        | (other) "c \<noteq> 0x7B" "c \<noteq> 0x5B" "c \<noteq> 0x22" by blast
      then show ?thesis
      proof cases
        case obj
        then show ?thesis
          using h s Suc length_skip_ws [of r0]
          by (fastforce split: list.splits if_splits)
      next
        case arr
        then show ?thesis
          using h s Suc length_skip_ws [of r0]
          by (fastforce split: list.splits if_splits)
      next
        case str
        then show ?thesis
          using h s parse_chars_length by fastforce
      next
        case other
        then show ?thesis
          using h s
          by (auto split: if_splits dest!: strip_prefix_length parse_number_length)
      qed
    qed
    then show ?thesis using l0 by simp
  qed
  have E: "length r \<le> length cs" if h: "parse_elements (Suc n) cs = Some (vs, r)" for cs vs r
  proof -
    obtain v r1 where v: "parse_value n cs = Some (v, r1)"
      by (cases "parse_value n cs") (use h in \<open>auto\<close>)
    have l1: "length r1 \<le> length cs" using Suc v by blast
    obtain c r2 where s: "skip_ws r1 = c # r2"
      by (cases "skip_ws r1") (use h v in \<open>simp_all\<close>)
    have l2: "length r2 < length r1" using s by (rule skip_ws_Cons_length)
    have "length r \<le> length r2"
      using h v s Suc by (fastforce simp: consed_def split: if_splits)
    then show ?thesis using l1 l2 by simp
  qed
  have M: "length r \<le> length cs" if h: "parse_members (Suc n) cs = Some (ms, r)" for cs ms r
  proof -
    obtain q r0 where s0: "skip_ws cs = q # r0" "q = 0x22"
      by (cases "skip_ws cs") (use h in \<open>auto split: if_splits\<close>)
    obtain k r1 where k: "parse_chars r0 = Some (k, r1)"
      by (cases "parse_chars r0") (use h s0 in \<open>auto\<close>)
    obtain c r2 where s1: "skip_ws r1 = c # r2" "c = 0x3A"
      by (cases "skip_ws r1") (use h s0 k in \<open>auto split: if_splits\<close>)
    obtain v r3 where v: "parse_value n r2 = Some (v, r3)"
      by (cases "parse_value n r2") (use h s0 k s1 in \<open>auto\<close>)
    obtain d r4 where s3: "skip_ws r3 = d # r4"
      by (cases "skip_ws r3") (use h s0 k s1 v in \<open>auto\<close>)
    have "length r \<le> length r4"
      using h s0 k s1 v s3 Suc by (fastforce simp: consed_def split: if_splits)
    moreover have "length r4 < length r3" using s3 by (rule skip_ws_Cons_length)
    moreover have "length r3 \<le> length r2" using Suc v by blast
    moreover have "length r2 < length r1" using s1(1) by (rule skip_ws_Cons_length)
    moreover have "length r1 < length r0" using k by (rule parse_chars_length)
    moreover have "length r0 < length cs" using s0(1) by (rule skip_ws_Cons_length)
    ultimately show ?thesis by simp
  qed
  show ?case using V E M by blast
qed

text \<open>
  A call with bound \<open>Suc n\<close> that succeeds succeeds with bound \<open>Suc m\<close> as well, when the
  calls it makes with bound \<open>n\<close> succeed with bound \<open>m\<close>.
\<close>

lemma parse_value_transfer:
  assumes h: "parse_value (Suc n) cs = Some a"
    and M: "\<And>cs' x. length cs' < length cs \<Longrightarrow> parse_members n cs' = Some x \<Longrightarrow> parse_members m cs' = Some x"
    and E: "\<And>cs' x. length cs' < length cs \<Longrightarrow> parse_elements n cs' = Some x \<Longrightarrow> parse_elements m cs' = Some x"
  shows "parse_value (Suc m) cs = Some a"
proof -
  obtain c r0 where s: "skip_ws cs = c # r0"
    by (cases "skip_ws cs") (use h in simp_all)
  have l0: "length r0 < length cs" using s by (rule skip_ws_Cons_length)
  show ?thesis
  proof (cases "c = 0x7B \<or> c = 0x5B")
    case False
    then show ?thesis using h s by simp
  next
    case True
    obtain d r' where s2: "skip_ws r0 = d # r'"
      by (cases "skip_ws r0") (use h s True in auto)
    have l: "length (d # r') < length cs"
      using length_skip_ws [of r0] s2 l0 by simp
    show ?thesis
    proof (cases "c = 0x7B")
      case obj: True
      show ?thesis
      proof (cases "d = 0x7D")
        case True
        then show ?thesis using h s obj s2 by simp
      next
        case False
        then obtain x where x: "parse_members n (d # r') = Some x"
          and a: "a = (case x of (ms, rest) \<Rightarrow> (JObj ms, rest))"
          using h s obj s2 by auto
        have "parse_members m (d # r') = Some x" using M [OF l x] .
        then show ?thesis using s obj s2 False a by simp
      qed
    next
      case nobj: False
      then have arr: "c = 0x5B" using True by simp
      show ?thesis
      proof (cases "d = 0x5D")
        case True
        then show ?thesis using h s arr s2 by simp
      next
        case False
        then obtain x where x: "parse_elements n (d # r') = Some x"
          and a: "a = (case x of (vs, rest) \<Rightarrow> (JArr vs, rest))"
          using h s arr s2 by auto
        have "parse_elements m (d # r') = Some x" using E [OF l x] .
        then show ?thesis using s arr s2 False a by simp
      qed
    qed
  qed
qed

lemma parse_elements_transfer:
  assumes h: "parse_elements (Suc n) cs = Some b"
    and V: "\<And>x. parse_value n cs = Some x \<Longrightarrow> parse_value m cs = Some x"
    and E: "\<And>cs' x. length cs' < length cs \<Longrightarrow> parse_elements n cs' = Some x \<Longrightarrow> parse_elements m cs' = Some x"
  shows "parse_elements (Suc m) cs = Some b"
proof -
  obtain v r1 where v: "parse_value n cs = Some (v, r1)"
    by (cases "parse_value n cs") (use h in auto)
  have l1: "length r1 \<le> length cs" using parse_length v by blast
  obtain c r2 where s: "skip_ws r1 = c # r2"
    by (cases "skip_ws r1") (use h v in simp_all)
  have l2: "length r2 < length cs" using skip_ws_Cons_length [OF s] l1 by simp
  have vm: "parse_value m cs = Some (v, r1)" using V [OF v] .
  show ?thesis
  proof (cases "c = 0x2C")
    case True
    then obtain x where x: "parse_elements n r2 = Some x" and b: "b = (case x of (vs, rest) \<Rightarrow> (v # vs, rest))"
      using h v s by (auto simp: consed_def)
    have "parse_elements m r2 = Some x" using E [OF l2 x] .
    then show ?thesis using vm s True b by (simp add: consed_def)
  next
    case False
    then show ?thesis using h v vm s by (simp split: if_splits)
  qed
qed

lemma parse_members_transfer:
  assumes h: "parse_members (Suc n) cs = Some b"
    and V: "\<And>cs' x. length cs' < length cs \<Longrightarrow> parse_value n cs' = Some x \<Longrightarrow> parse_value m cs' = Some x"
    and M: "\<And>cs' x. length cs' < length cs \<Longrightarrow> parse_members n cs' = Some x \<Longrightarrow> parse_members m cs' = Some x"
  shows "parse_members (Suc m) cs = Some b"
proof -
  obtain q r0 where s0: "skip_ws cs = q # r0" "q = 0x22"
    by (cases "skip_ws cs") (use h in \<open>auto split: if_splits\<close>)
  obtain k r1 where k: "parse_chars r0 = Some (k, r1)"
    by (cases "parse_chars r0") (use h s0 in auto)
  obtain c r2 where s1: "skip_ws r1 = c # r2" "c = 0x3A"
    by (cases "skip_ws r1") (use h s0 k in \<open>auto split: if_splits\<close>)
  obtain v r3 where v: "parse_value n r2 = Some (v, r3)"
    by (cases "parse_value n r2") (use h s0 k s1 in auto)
  obtain d r4 where s3: "skip_ws r3 = d # r4"
    by (cases "skip_ws r3") (use h s0 k s1 v in auto)
  have l2: "length r2 < length cs"
    using skip_ws_Cons_length [OF s1(1)] parse_chars_length [OF k] skip_ws_Cons_length [OF s0(1)]
    by simp
  have l4: "length r4 < length cs"
    using skip_ws_Cons_length [OF s3] parse_length v l2 by fastforce
  have vm: "parse_value m r2 = Some (v, r3)" using V [OF l2 v] .
  show ?thesis
  proof (cases "d = 0x2C")
    case True
    then obtain x where x: "parse_members n r4 = Some x"
      and b: "b = (case x of (ms, rest) \<Rightarrow> ((k, v) # ms, rest))"
      using h s0 k s1 v s3 by (auto simp: consed_def)
    have "parse_members m r4 = Some x" using M [OF l4 x] .
    then show ?thesis using s0 k s1 vm s3 True b by (simp add: consed_def)
  next
    case False
    then show ?thesis using h s0 k s1 v vm s3 by (simp split: if_splits)
  qed
qed

lemma parse_mono_Suc:
  "(\<forall>cs a. parse_value n cs = Some a \<longrightarrow> parse_value (Suc n) cs = Some a) \<and>
   (\<forall>cs b. parse_elements n cs = Some b \<longrightarrow> parse_elements (Suc n) cs = Some b) \<and>
   (\<forall>cs c. parse_members n cs = Some c \<longrightarrow> parse_members (Suc n) cs = Some c)"
proof (induction n)
  case 0
  show ?case by simp
next
  case (Suc n)
  show ?case
    using Suc
    by (blast intro: parse_value_transfer parse_elements_transfer parse_members_transfer)
qed

lemma parse_mono:
  assumes "n \<le> m"
  shows "(parse_value n cs = Some a \<longrightarrow> parse_value m cs = Some a) \<and>
         (parse_elements n cs = Some b \<longrightarrow> parse_elements m cs = Some b) \<and>
         (parse_members n cs = Some c \<longrightarrow> parse_members m cs = Some c)"
  using assms
proof (induction m)
  case 0
  then show ?case by simp
next
  case (Suc m)
  show ?case
  proof (cases "n = Suc m")
    case True
    then show ?thesis by simp
  next
    case False
    then have "n \<le> m" using Suc.prems by simp
    then show ?thesis using Suc.IH parse_mono_Suc [of m] by blast
  qed
qed

text \<open>
  No text fails for want of a larger bound: a call that succeeds with some bound succeeds
  with a bound of twice the length of its input, plus one for a value and plus two for
  elements and members.
\<close>

lemma parse_bound:
  "(\<forall>cs a. parse_value n cs = Some a \<longrightarrow> parse_value (2 * length cs + 1) cs = Some a) \<and>
   (\<forall>cs b. parse_elements n cs = Some b \<longrightarrow> parse_elements (2 * length cs + 2) cs = Some b) \<and>
   (\<forall>cs c. parse_members n cs = Some c \<longrightarrow> parse_members (2 * length cs + 2) cs = Some c)"
proof (induction n)
  case 0
  show ?case by simp
next
  case (Suc n)
  have ihV: "parse_value k cs' = Some x"
    if "parse_value n cs' = Some x" "2 * length cs' + 1 \<le> k" for cs' x k
    using that Suc parse_mono [of "2 * length cs' + 1" k cs' x] by blast
  have ihE: "parse_elements k cs' = Some x"
    if "parse_elements n cs' = Some x" "2 * length cs' + 2 \<le> k" for cs' x k
    using that Suc parse_mono [of "2 * length cs' + 2" k cs' _ x] by blast
  have ihM: "parse_members k cs' = Some x"
    if "parse_members n cs' = Some x" "2 * length cs' + 2 \<le> k" for cs' x k
    using that Suc parse_mono [of "2 * length cs' + 2" k cs' _ _ x] by blast
  have V: "parse_value (2 * length cs + 1) cs = Some a" if h: "parse_value (Suc n) cs = Some a" for cs a
  proof -
    have "parse_value (Suc (2 * length cs)) cs = Some a"
      by (rule parse_value_transfer [OF h]; erule ihM ihE; simp)
    then show ?thesis by simp
  qed
  have E: "parse_elements (2 * length cs + 2) cs = Some b" if h: "parse_elements (Suc n) cs = Some b" for cs b
  proof -
    have "parse_elements (Suc (2 * length cs + 1)) cs = Some b"
      by (rule parse_elements_transfer [OF h]; erule ihV ihE; simp)
    then show ?thesis by simp
  qed
  have M: "parse_members (2 * length cs + 2) cs = Some c" if h: "parse_members (Suc n) cs = Some c" for cs c
  proof -
    have "parse_members (Suc (2 * length cs + 1)) cs = Some c"
      by (rule parse_members_transfer [OF h]; erule ihV ihM; simp)
    then show ?thesis by simp
  qed
  show ?case using V E M by blast
qed

text \<open>
  So \<open>JSON_parse\<close> gives \<open>None\<close> only for a text that no bound parses: the bound it
  starts with is never the reason for a SyntaxError.
\<close>

lemma JSON_parse_any_bound:
  "parse_value n s = Some (v, rest) \<Longrightarrow> skip_ws rest = [] \<Longrightarrow> JSON_parse s = Some v"
proof -
  assume a: "parse_value n s = Some (v, rest)" and b: "skip_ws rest = []"
  have "parse_value (2 * length s + 1) s = Some (v, rest)" using parse_bound a by blast
  then have "parse_value (2 * length s + 2) s = Some (v, rest)"
    using parse_mono [of "2 * length s + 1" "2 * length s + 2" s "(v, rest)"] by simp
  then show ?thesis using b by (simp add: JSON_parse_def)
qed

section \<open>The date-time format reads back what it writes\<close>

lemma div_succ:
  assumes "0 < (k::int)" shows "(x + 1) div k = x div k + (if (x + 1) mod k = 0 then 1 else 0)"
proof (cases "x mod k + 1 = k")
  case True
  have "x + 1 = k * (x div k) + (x mod k + 1)" by simp
  also have "\<dots> = k * (x div k + 1) + 0" unfolding True by (simp add: algebra_simps)
  finally have e: "x + 1 = k * (x div k + 1) + 0" .
  have "(x + 1) div k = x div k + 1"
    by (rule int_div_pos_eq [OF e]) (use assms in simp_all)
  moreover have "(x + 1) mod k = 0"
    by (rule int_mod_pos_eq [OF e]) (use assms in simp_all)
  ultimately show ?thesis by simp
next
  case False
  then have lt: "x mod k + 1 < k" using assms pos_mod_bound[of k x] by linarith
  have ge: "0 \<le> x mod k + 1" using assms pos_mod_sign[of k x] by linarith
  have e: "x + 1 = k * (x div k) + (x mod k + 1)" by simp
  have "(x + 1) div k = x div k"
    by (rule int_div_pos_eq [OF e ge lt])
  moreover have "(x + 1) mod k = x mod k + 1"
    by (rule int_mod_pos_eq [OF e ge lt])
  moreover have "x mod k + 1 \<noteq> 0" using assms pos_mod_sign[of k x] by linarith
  ultimately show ?thesis by simp
qed

lemma div_lower: "0 < (k::int) \<Longrightarrow> k * (x div k) \<le> x"
  using pos_mod_sign [of k x] mult_div_mod_eq [of k x] by linarith

lemma div_upper: "0 < (k::int) \<Longrightarrow> x < k * (x div k) + k"
  using pos_mod_bound [of k x] mult_div_mod_eq [of k x] by linarith

lemma DayFromYear_lb: "146097 * (y - 1970) - 506 \<le> 400 * DayFromYear y"
  using div_upper [of 4 "y - 1969"] div_lower [of 100 "y - 1901"] div_upper [of 400 "y - 1601"]
  unfolding DayFromYear_def by (simp add: algebra_simps)
lemma DayFromYear_ub: "400 * DayFromYear y \<le> 146097 * (y - 1970) + 589"
  using div_lower [of 4 "y - 1969"] div_upper [of 100 "y - 1901"] div_lower [of 400 "y - 1601"]
  unfolding DayFromYear_def by (simp add: algebra_simps)
lemma YearFromDay_bounds:
  "DayFromYear (YearFromDay d) \<le> d \<and> d < DayFromYear (YearFromDay d + 1)"
proof -
  define q where "q = (400 * d) div 146097"
  define y where "y = 1970 + q"
  have b: "146097 * q \<le> 400 * d" "400 * d < 146097 * q + 146097"
    unfolding q_def by (simp_all add: div_lower div_upper)
  have u: "d < DayFromYear (y + 2)"
    using DayFromYear_lb [of "y + 2"] b unfolding y_def by (simp add: algebra_simps)
  have l: "DayFromYear (y - 1) \<le> d"
    using DayFromYear_ub [of "y - 1"] b unfolding y_def by (simp add: algebra_simps)
  have e: "YearFromDay d = (if DayFromYear (y + 1) \<le> d then y + 1 else if DayFromYear y \<le> d then y else y - 1)"
    unfolding YearFromDay_def y_def q_def Let_def ..
  show ?thesis
  proof (cases "DayFromYear (y + 1) \<le> d")
    case True
    then show ?thesis using u e by (simp add: add.assoc)
  next
    case False
    then show ?thesis using l e by (cases "DayFromYear y \<le> d") (simp_all)
  qed
qed

lemma mod_shift: "((y::int) - 1968) mod 4 = y mod 4"
  "((y::int) - 1900) mod 100 = y mod 100"
  "((y::int) - 1600) mod 400 = y mod 400"
proof -
  have "(y - 492 * 4) mod 4 = y mod 4" "(y - 19 * 100) mod 100 = y mod 100" "(y - 4 * 400) mod 400 = y mod 400"
    by (simp_all only: mod_diff_right_eq [symmetric, of y] mod_mult_self2_is_0 diff_0_right)
  then show "((y::int) - 1968) mod 4 = y mod 4"
  "((y::int) - 1900) mod 100 = y mod 100"
  "((y::int) - 1600) mod 400 = y mod 400" by simp_all
qed
lemma mod_chain: "(y::int) mod 400 = 0 \<Longrightarrow> y mod 100 = 0" "(y::int) mod 100 = 0 \<Longrightarrow> y mod 4 = 0"
proof -
  show "y mod 400 = 0 \<Longrightarrow> y mod 100 = 0"
    using mod_mod_cancel [of 100 400 y] by simp
  show "y mod 100 = 0 \<Longrightarrow> y mod 4 = 0"
    using mod_mod_cancel [of 4 100 y] by simp
qed
lemma DayFromYear_step: "DayFromYear (y + 1) = DayFromYear y + 365 + InLeapYear y"
proof -
  have a: "(y + 1 - 1969) div 4 = (y - 1969) div 4 + (if y mod 4 = 0 then 1 else 0)"
    using div_succ [of 4 "y - 1969"] by (simp add: mod_shift)
  have b: "(y + 1 - 1901) div 100 = (y - 1901) div 100 + (if y mod 100 = 0 then 1 else 0)"
    using div_succ [of 100 "y - 1901"] by (simp add: mod_shift)
  have c: "(y + 1 - 1601) div 400 = (y - 1601) div 400 + (if y mod 400 = 0 then 1 else 0)"
    using div_succ [of 400 "y - 1601"] by (simp add: mod_shift)
  show ?thesis
    unfolding DayFromYear_def InLeapYear_def a b c
    using mod_chain [of y] by (auto simp: algebra_simps)
qed

lemma unat_digit_char: "d < 10 \<Longrightarrow> unat (digit_char d) = 48 + d"
  unfolding digit_char_def by (rule of_nat_inverse [OF refl]) simp

lemma is_digit_digit_char: "d < 10 \<Longrightarrow> is_digit (digit_char d)"
  by (simp add: is_digit_def word_le_nat_alt unat_digit_char)

lemma digit_val_digit_char: "d < 10 \<Longrightarrow> digit_val (digit_char d) = d"
  by (simp add: digit_val_def unat_digit_char)

lemma length_pad: "length (pad k n) = k"
  by (induction k arbitrary: n) simp_all

lemma list_all_pad: "list_all is_digit (pad k n)"
  by (induction k arbitrary: n) (simp_all add: is_digit_digit_char)

lemma digits_val_snoc: "digits_val (cs @ [c]) = 10 * digits_val cs + digit_val c"
  by (simp add: digits_val_def)

lemma digits_val_pad: "n < 10 ^ k \<Longrightarrow> digits_val (pad k n) = n"
proof (induction k arbitrary: n)
  case 0
  then show ?case by (simp add: digits_val_def)
next
  case (Suc k)
  then have "n div 10 < 10 ^ k" by (simp add: less_mult_imp_div_less mult.commute)
  then show ?case using Suc.IH [of "n div 10"]
    by (simp add: digits_val_snoc digit_val_digit_char)
qed

lemma take_digits_pad: "n < 10 ^ k \<Longrightarrow> take_digits k (pad k n @ rest) = Some (n, rest)"
  by (simp add: take_digits_def length_pad list_all_pad digits_val_pad)

lemma expect_Cons: "expect c (c # r) = Some r"
  by (simp add: expect_def)

lemma pad_not_sign: "0 < k \<Longrightarrow> \<exists>c cs. pad k n = c # cs \<and> c \<noteq> 0x2B \<and> c \<noteq> 0x2D"
proof -
  assume "0 < k"
  then obtain c cs where e: "pad k n = c # cs"
    using length_pad [of k n] by (cases "pad k n") auto
  have "is_digit c" using list_all_pad [of k n] e by simp
  then have "c \<noteq> 0x2B \<and> c \<noteq> 0x2D" by (auto simp: is_digit_def)
  with e show ?thesis by blast
qed

lemma parse_year_string:
  assumes "\<bar>y\<bar> < 1000000"
  shows "parse_year (year_string y @ rest) = Some (y, rest)"
proof (cases "0 \<le> y \<and> y \<le> 9999")
  case True
  obtain c cs where e: "pad 4 (nat y) = c # cs" "c \<noteq> 0x2B" "c \<noteq> 0x2D"
    using pad_not_sign [of 4 "nat y"] by auto
  have "take_digits 4 (pad 4 (nat y) @ rest) = Some (nat y, rest)"
    using True by (intro take_digits_pad) (simp add: nat_less_iff)
  then show ?thesis using True e by (simp add: parse_year_def year_string_def)
next
  case False
  have t: "take_digits 6 (pad 6 (nat \<bar>y\<bar>) @ rest) = Some (nat \<bar>y\<bar>, rest)"
    using assms by (intro take_digits_pad) (simp add: nat_less_iff)
  show ?thesis
  proof (cases "y < 0")
    case True
    then show ?thesis using False t by (simp add: parse_year_def year_string_def)
  next
    case False
    then show ?thesis using \<open>\<not> (0 \<le> y \<and> y \<le> 9999)\<close> t by (simp add: parse_year_def year_string_def)
  qed
qed

lemma Day_range: "valid_time t \<Longrightarrow> - 100000000 \<le> Day t \<and> Day t \<le> 100000000"
proof -
  assume "valid_time t"
  then have "- 8640000000000000 \<le> t" "t \<le> 8640000000000000"
    by (simp_all add: valid_time_def abs_le_iff)
  then show ?thesis
    using div_lower [of msPerDay t] div_upper [of msPerDay t]
    by (simp add: Day_def msPerDay_def)
qed

lemma YearFromDay_range:
  assumes "- 100000000 \<le> d" "d \<le> 100000000"
  shows "\<bar>YearFromDay d\<bar> < 1000000"
proof -
  define q where "q = (400 * d) div 146097"
  have "146097 * q \<le> 400 * d" "400 * d < 146097 * q + 146097"
    unfolding q_def by (simp_all add: div_lower div_upper)
  then have "- 300000 \<le> q \<and> q \<le> 300000" using assms by simp
  moreover have "YearFromDay d = 1970 + q + 1 \<or> YearFromDay d = 1970 + q \<or> YearFromDay d = 1970 + q - 1"
    unfolding YearFromDay_def q_def Let_def by simp
  ultimately show ?thesis by auto
qed
lemma day_in_year:
  "0 \<le> d - DayFromYear (YearFromDay d) \<and>
   d - DayFromYear (YearFromDay d) < 365 + InLeapYear (YearFromDay d)"
  using YearFromDay_bounds [of d] DayFromYear_step [of "YearFromDay d"] by simp

lemma InLeapYear_cases: "InLeapYear y = 0 \<or> InLeapYear y = 1"
  by (simp add: InLeapYear_def)

lemma month_fields:
  assumes "l = 0 \<or> l = 1" "0 \<le> diy" "diy < 365 + l"
  shows "0 \<le> MonthFromDay diy l \<and> MonthFromDay diy l \<le> 11 \<and>
         1 \<le> diy - month_start (MonthFromDay diy l) l + 1 \<and>
         diy - month_start (MonthFromDay diy l) l + 1
           \<le> month_start (MonthFromDay diy l + 1) l - month_start (MonthFromDay diy l) l \<and>
         diy - month_start (MonthFromDay diy l) l + 1 \<le> 31"
  using assms unfolding MonthFromDay_def month_start_def by auto
lemma time_fields:
  fixes w :: int
  assumes "0 \<le> w" "w < 86400000"
  shows "0 \<le> w div 3600000 \<and> w div 3600000 \<le> 23 \<and>
         0 \<le> w div 60000 mod 60 \<and> w div 60000 mod 60 \<le> 59 \<and>
         0 \<le> w div 1000 mod 60 \<and> w div 1000 mod 60 \<le> 59 \<and>
         0 \<le> w mod 1000 \<and> w mod 1000 \<le> 999"
proof -
  have "w div 3600000 \<le> 23"
    using div_lower [of 3600000 w] assms by simp
  moreover have "0 \<le> w div 3600000" using assms by (simp add: pos_imp_zdiv_nonneg_iff)
  moreover have "w div 60000 mod 60 < 60" "w div 1000 mod 60 < 60" "w mod 1000 < 1000"
    by simp_all
  moreover have "0 \<le> w div 60000 mod 60" "0 \<le> w div 1000 mod 60" "0 \<le> w mod 1000"
    by simp_all
  ultimately show ?thesis by linarith
qed


lemma time_recompose:
  fixes w :: int
  shows "w div 3600000 * 3600000 + w div 60000 mod 60 * 60000 + w div 1000 mod 60 * 1000 + w mod 1000 = w"
proof -
  have a: "w div 60000 = w div 1000 div 60"
    using zdiv_zmult2_eq [of 60 w 1000] by simp
  have b: "w div 3600000 = w div 60000 div 60"
    using zdiv_zmult2_eq [of 60 w 60000] by simp
  have "w = 1000 * (w div 1000) + w mod 1000" by simp
  moreover have "w div 1000 = 60 * (w div 60000) + w div 1000 mod 60"
    unfolding a by simp
  moreover have "w div 60000 = 60 * (w div 3600000) + w div 60000 mod 60"
    unfolding b by simp
  ultimately show ?thesis by linarith
qed

lemma parse_iso_printed:
  assumes yr: "\<bar>y\<bar> < 1000000"
  and n: "a < 10 ^ 2" "b < 10 ^ 2" "c < 10 ^ 2" "d < 10 ^ 2" "e < 10 ^ 2" "f < 10 ^ 3"
  and c: "d \<le> 59" "c \<le> 23" "1 \<le> b" "a \<le> 12" "1 \<le> a" "e \<le> 59"
  and dim: "int b \<le> DaysInMonth y (int a)"
  shows "parse_iso (year_string y @ 0x2D # pad 2 a @ 0x2D # pad 2 b @
         0x54 # pad 2 c @ 0x3A # pad 2 d @
         0x3A # pad 2 e @ 0x2E # pad 3 f @ [0x5A]) =
      Some ((DayFromYear y + month_start (int a - 1) (InLeapYear y) + int b - 1) * msPerDay
                + int c * 3600000 + int d * 60000
                + int e * 1000 + int f)"
    unfolding parse_iso_def
    using c dim
    by (simp add: parse_year_string [OF yr] take_digits_pad [OF n(1)] take_digits_pad [OF n(2)]
        take_digits_pad [OF n(3)] take_digits_pad [OF n(4)] take_digits_pad [OF n(5)]
        take_digits_pad [OF n(6)] expect_Cons)

text \<open>
  Reading back what \<open>toISOString\<close> writes gives the time value it was written from.
\<close>

lemma parse_iso_toISOString:
  assumes "valid_time t"
  shows "parse_iso (toISOString t) = Some t"
proof -
  define d where "d = Day t"
  define w where "w = TimeWithinDay t"
  define y where "y = YearFromDay d"
  define l where "l = InLeapYear y"
  define diy where "diy = d - DayFromYear y"
  define m where "m = MonthFromDay diy l"
  define dt where "dt = diy - month_start m l + 1"
  have yr: "\<bar>y\<bar> < 1000000"
    unfolding y_def d_def using Day_range [OF assms] by (intro YearFromDay_range) simp_all
  have mf: "0 \<le> m \<and> m \<le> 11 \<and> 1 \<le> dt \<and> dt \<le> month_start (m + 1) l - month_start m l \<and> dt \<le> 31"
    unfolding m_def dt_def
    using InLeapYear_cases [of y] day_in_year [of d]
    by (intro month_fields) (simp_all add: l_def diy_def y_def)
  have wr: "0 \<le> w" "w < 86400000"
    by (simp_all add: w_def TimeWithinDay_def msPerDay_def)
  note tf = time_fields [OF wr]
  have iso: "toISOString t =
      year_string y @ 0x2D # pad 2 (nat (m + 1)) @ 0x2D # pad 2 (nat dt) @
         0x54 # pad 2 (nat (w div 3600000)) @ 0x3A # pad 2 (nat (w div 60000 mod 60)) @
         0x3A # pad 2 (nat (w div 1000 mod 60)) @ 0x2E # pad 3 (nat (w mod 1000)) @ [0x5A]"
    unfolding toISOString_def Let_def d_def w_def y_def l_def diy_def m_def dt_def ..
  have n: "nat (m + 1) < 10 ^ 2" "nat dt < 10 ^ 2" "nat (w div 3600000) < 10 ^ 2"
    "nat (w div 60000 mod 60) < 10 ^ 2" "nat (w div 1000 mod 60) < 10 ^ 2" "nat (w mod 1000) < 10 ^ 3"
    using mf tf by (simp_all add: nat_less_iff)
  have c: "nat (w div 60000 mod 60) \<le> 59" "nat (w div 3600000) \<le> 23" "1 \<le> nat dt"
    "nat (m + 1) \<le> 12" "1 \<le> nat (m + 1)" "nat (w div 1000 mod 60) \<le> 59"
    using mf tf by (simp_all add: nat_le_iff le_nat_iff)
  have dim: "int (nat dt) \<le> DaysInMonth y (int (nat (m + 1)))"
    using mf by (simp add: DaysInMonth_def l_def)
  have p: "parse_iso (toISOString t) =
      Some ((DayFromYear y + month_start (int (nat (m + 1)) - 1) (InLeapYear y) + int (nat dt) - 1) * msPerDay
                + int (nat (w div 3600000)) * 3600000 + int (nat (w div 60000 mod 60)) * 60000
                + int (nat (w div 1000 mod 60)) * 1000 + int (nat (w mod 1000)))"
    unfolding iso by (rule parse_iso_printed [OF yr n c dim])
  have "(DayFromYear y + month_start (int (nat (m + 1)) - 1) (InLeapYear y) + int (nat dt) - 1) = d"
    using mf by (simp add: dt_def diy_def l_def)
  moreover have "int (nat (w div 3600000)) * 3600000 + int (nat (w div 60000 mod 60)) * 60000
                + int (nat (w div 1000 mod 60)) * 1000 + int (nat (w mod 1000)) = w"
    using tf time_recompose [of w] by simp
  moreover have "d * msPerDay + w = t"
    by (simp add: d_def w_def Day_def TimeWithinDay_def)
  ultimately show ?thesis unfolding p by (simp add: add.assoc)
qed

section \<open>\<open>JSON.parse\<close> reads back what \<open>JSON.stringify\<close> writes\<close>

text \<open>The equations of the parser for a bound written as a numeral.\<close>

lemmas parse_fuel_numeral =
  parse_value.simps(2) [of "pred_numeral k" for k, folded numeral_eq_Suc]
  parse_elements.simps(2) [of "pred_numeral k" for k, folded numeral_eq_Suc]
  parse_members.simps(2) [of "pred_numeral k" for k, folded numeral_eq_Suc]

lemma unat_of_nat_16: "n < 65536 \<Longrightarrow> unat (of_nat n :: jschar) = n"
  by (rule of_nat_inverse [OF refl]) simp

lemma unat_hex_digit: "n < 16 \<Longrightarrow> unat (hex_digit n) = (if n < 10 then 48 + n else 87 + n)"
  unfolding hex_digit_def by (simp add: unat_of_nat_16 del: of_nat_add)

lemma hex_val_hex_digit: "n < 16 \<Longrightarrow> hex_val (hex_digit n) = Some n"
  by (simp add: hex_val_def word_le_nat_alt unat_hex_digit)

lemma hex_digits_recompose:
  fixes n :: nat
  shows "n div 4096 * 4096 + n div 256 mod 16 * 256 + n div 16 mod 16 * 16 + n mod 16 = n"
proof -
  have a: "n div 256 = n div 16 div 16" using div_mult2_eq [of n 16 16] by simp
  have b: "n div 4096 = n div 256 div 16" using div_mult2_eq [of n 256 16] by simp
  have "n = 16 * (n div 16) + n mod 16" by simp
  moreover have "n div 16 = 16 * (n div 256) + n div 16 mod 16" unfolding a by simp
  moreover have "n div 256 = 16 * (n div 4096) + n div 256 mod 16" unfolding b by simp
  ultimately show ?thesis by linarith
qed

lemma hex4_unicode:
  "hex4 (hex_digit (unat c div 4096)) (hex_digit (unat c div 256 mod 16))
        (hex_digit (unat c div 16 mod 16)) (hex_digit (unat c mod 16)) = Some c"
proof -
  have "unat c < 65536" using unsigned_less [of c] by simp
  then have "unat c div 4096 < 16" by simp
  then show ?thesis
    by (simp add: hex4_def hex_val_hex_digit hex_digits_recompose)
qed

lemma parse_chars_unicode_escape:
  "parse_chars (unicode_escape c @ rest) = consed c (parse_chars rest)"
  by (simp add: unicode_escape_def hex4_unicode)

lemma unescape_simps:
  "unescape 0x62 = Some 0x08" "unescape 0x74 = Some 0x09" "unescape 0x6E = Some 0x0A"
  "unescape 0x66 = Some 0x0C" "unescape 0x72 = Some 0x0D" "unescape 0x22 = Some 0x22"
  "unescape 0x5C = Some 0x5C"
  by (simp_all add: unescape_def)

lemma parse_chars_quote_unit:
  "parse_chars (quote_unit c @ rest) = consed c (parse_chars rest)"
  by (simp add: quote_unit_def parse_chars_unicode_escape unescape_simps)

lemma parse_chars_pair:
  "is_lead c \<Longrightarrow> is_trail d \<Longrightarrow> parse_chars (c # d # rest) = consed c (consed d (parse_chars rest))"
  by (auto simp: is_lead_def is_trail_def word_le_nat_alt word_less_nat_alt)

lemma parse_chars_quote_chars:
  "parse_chars (quote_chars s @ 0x22 # rest) = Some (s, rest)"
proof (induction s rule: quote_chars.induct)
  case 1
  show ?case by simp
next
  case (2 c)
  have e: "parse_chars (0x22 # rest) = Some ([], rest)" by simp
  show ?case
    by (simp add: parse_chars_unicode_escape parse_chars_quote_unit e consed_def
        del: parse_chars.simps)
next
  case (3 c d cs)
  show ?case
  proof (cases "is_lead c \<and> is_trail d")
    case True
    then show ?thesis using 3(1)
      by (simp add: parse_chars_pair consed_def del: parse_chars.simps)
  next
    case False
    show ?thesis
    proof (cases "is_lead c \<or> is_trail c")
      case True
      have "quote_chars (c # d # cs) = unicode_escape c @ quote_chars (d # cs)"
        using False True by auto
      then show ?thesis using 3(2) [OF False True]
        by (simp add: parse_chars_unicode_escape consed_def del: parse_chars.simps quote_chars.simps)
    next
      case nt: False
      have "quote_chars (c # d # cs) = quote_unit c @ quote_chars (d # cs)"
        using False nt by auto
      then show ?thesis using 3(3) [OF False nt]
        by (simp add: parse_chars_quote_unit consed_def del: parse_chars.simps quote_chars.simps)
    qed
  qed
qed

lemma parse_value_string:
  "parse_value (Suc n) (QuoteJSONString s @ rest) = Some (JStr s, rest)"
  by (simp add: QuoteJSONString_def skip_ws_def json_ws_def parse_chars_quote_chars
      del: parse_chars.simps)

lemma parse_value_Date:
  "parse_value (Suc n) (stringify_Date d @ 0x7D # rest) = Some (toJSON_Date d, 0x7D # rest)"
proof (cases d)
  case (TimeValue t)
  then show ?thesis by (simp add: stringify_Date_def toJSON_Date_def parse_value_string del: parse_value.simps)
next
  case InvalidDate
  then show ?thesis by (simp add: stringify_Date_def toJSON_Date_def js_def skip_ws_def json_ws_def)
qed

lemma parse_value_bool:
  "parse_value (Suc n) ((if b then js ''true'' else js ''false'') @ rest) = Some (JBool b, rest)"
  by (simp add: js_def skip_ws_def json_ws_def)

lemma parse_key:
  "parse_members (Suc n) (QuoteJSONString k @ 0x3A # rest) =
     (case parse_value n rest of
        None \<Rightarrow> None
      | Some (v, r3) \<Rightarrow>
          (case skip_ws r3 of
             [] \<Rightarrow> None
           | d # r4 \<Rightarrow> if d = 0x2C then consed (k, v) (parse_members n r4)
                       else if d = 0x7D then Some ([(k, v)], r4)
                       else None))"
  by (simp add: QuoteJSONString_def skip_ws_def json_ws_def parse_chars_quote_chars
      del: parse_chars.simps)

lemma skip_ws_comma: "skip_ws (0x2C # r) = 0x2C # r" "skip_ws (0x7D # r) = 0x7D # r"
  "skip_ws (0x22 # r) = 0x22 # r" "skip_ws (0x7B # r) = 0x7B # r" "skip_ws (0x5D # r) = 0x5D # r"
  by (simp_all add: skip_ws_def json_ws_def)

lemma skip_ws_quoted: "skip_ws (QuoteJSONString k @ r) = QuoteJSONString k @ r"
  by (simp add: QuoteJSONString_def skip_ws_comma)

lemma parse_value_object:
  "parse_value (Suc n) (0x7B # QuoteJSONString k @ r)
     = map_option (\<lambda>(ms, rest). (JObj ms, rest)) (parse_members n (QuoteJSONString k @ r))"
  by (simp add: skip_ws_comma QuoteJSONString_def del: parse_members.simps)

lemma parse_value_Todo:
  "parse_value (Suc (Suc (Suc (Suc (Suc (Suc n)))))) (stringify_Todo todo @ rest)
     = Some (toJSON_Todo todo, rest)"
proof -
  have m4: "parse_members (Suc (Suc n))
              (QuoteJSONString (js ''createdAt'') @ 0x3A # stringify_Date (createdAt todo) @ 0x7D # rest)
            = Some ([(js ''createdAt'', toJSON_Date (createdAt todo))], rest)"
    by (subst parse_key)
       (simp add: parse_value_Date skip_ws_comma del: parse_members.simps parse_value.simps)
  have m3: "parse_members (Suc (Suc (Suc n)))
              (QuoteJSONString (js ''completed'') @ 0x3A # (if completed todo then js ''true'' else js ''false'') @
               0x2C # QuoteJSONString (js ''createdAt'') @ 0x3A # stringify_Date (createdAt todo) @ 0x7D # rest)
            = Some ([(js ''completed'', JBool (completed todo)),
                     (js ''createdAt'', toJSON_Date (createdAt todo))], rest)"
    by (subst parse_key)
       (simp add: parse_value_bool skip_ws_comma m4 consed_def del: parse_members.simps parse_value.simps)
  have m2: "parse_members (Suc (Suc (Suc (Suc n))))
              (QuoteJSONString (js ''text'') @ 0x3A # QuoteJSONString (text_t todo) @
               0x2C # QuoteJSONString (js ''completed'') @ 0x3A # (if completed todo then js ''true'' else js ''false'') @
               0x2C # QuoteJSONString (js ''createdAt'') @ 0x3A # stringify_Date (createdAt todo) @ 0x7D # rest)
            = Some ([(js ''text'', JStr (text_t todo)), (js ''completed'', JBool (completed todo)),
                     (js ''createdAt'', toJSON_Date (createdAt todo))], rest)"
    by (subst parse_key)
       (simp add: parse_value_string skip_ws_comma m3 consed_def del: parse_members.simps parse_value.simps)
  have m1: "parse_members (Suc (Suc (Suc (Suc (Suc n)))))
              (QuoteJSONString (js ''id'') @ 0x3A # QuoteJSONString (id_t todo) @
               0x2C # QuoteJSONString (js ''text'') @ 0x3A # QuoteJSONString (text_t todo) @
               0x2C # QuoteJSONString (js ''completed'') @ 0x3A # (if completed todo then js ''true'' else js ''false'') @
               0x2C # QuoteJSONString (js ''createdAt'') @ 0x3A # stringify_Date (createdAt todo) @ 0x7D # rest)
            = Some ([(js ''id'', JStr (id_t todo)), (js ''text'', JStr (text_t todo)),
                     (js ''completed'', JBool (completed todo)),
                     (js ''createdAt'', toJSON_Date (createdAt todo))], rest)"
    by (subst parse_key)
       (simp add: parse_value_string skip_ws_comma m2 consed_def del: parse_members.simps parse_value.simps)
  have e: "stringify_Todo todo @ rest =
              0x7B # QuoteJSONString (js ''id'') @ 0x3A # QuoteJSONString (id_t todo) @
               0x2C # QuoteJSONString (js ''text'') @ 0x3A # QuoteJSONString (text_t todo) @
               0x2C # QuoteJSONString (js ''completed'') @ 0x3A # (if completed todo then js ''true'' else js ''false'') @
               0x2C # QuoteJSONString (js ''createdAt'') @ 0x3A # stringify_Date (createdAt todo) @ 0x7D # rest"
    by (simp add: stringify_Todo_def)
  show ?thesis
    unfolding e toJSON_Todo_def
    by (subst parse_value_object) (simp add: m1 del: parse_members.simps)
qed

lemma parse_value_Todo_fuel:
  assumes "6 \<le> k"
  shows "parse_value k (stringify_Todo todo @ rest) = Some (toJSON_Todo todo, rest)"
proof -
  have "k = Suc (Suc (Suc (Suc (Suc (Suc (k - 6))))))" using assms by simp
  then show ?thesis using parse_value_Todo [of "k - 6" todo rest] by simp
qed

lemma stringify_Todo_Cons: "\<exists>r. stringify_Todo todo = 0x7B # r"
  by (simp add: stringify_Todo_def)

lemma join_commas_Cons:
  "join_commas (x # xs) = (if xs = [] then x else x @ 0x2C # join_commas xs)"
  by (cases xs) simp_all

lemma parse_elements_Todos:
  "ts \<noteq> [] \<Longrightarrow> length ts + 6 \<le> k \<Longrightarrow>
     parse_elements k (join_commas (map stringify_Todo ts) @ 0x5D # rest) = Some (map toJSON_Todo ts, rest)"
proof (induction ts arbitrary: k)
  case Nil
  then show ?case by simp
next
  case (Cons t ts)
  from Cons.prems obtain k' where k: "k = Suc k'" and k': "length ts + 6 \<le> k'"
    by (cases k) auto
  have six: "6 \<le> k'" using k' by simp
  show ?case
  proof (cases "ts = []")
    case True
    then show ?thesis
      by (simp add: k parse_value_Todo_fuel [OF six] skip_ws_comma del: parse_value.simps)
  next
    case False
    have ih: "parse_elements k' (join_commas (map stringify_Todo ts) @ 0x5D # rest)
                = Some (map toJSON_Todo ts, rest)"
      using Cons.IH [OF False k'] .
    show ?thesis
      using False
      by (simp add: k join_commas_Cons parse_value_Todo_fuel [OF six] skip_ws_comma ih consed_def
          del: parse_value.simps)
  qed
qed

lemma length_join_commas: "length ts \<le> length (join_commas (map stringify_Todo ts))"
proof (induction ts)
  case Nil
  show ?case by simp
next
  case (Cons t ts)
  obtain r where "stringify_Todo t = 0x7B # r" using stringify_Todo_Cons by blast
  then show ?case using Cons by (simp add: join_commas_Cons)
qed

lemma join_commas_head:
  "ts \<noteq> [] \<Longrightarrow> \<exists>r. join_commas (map stringify_Todo ts) = 0x7B # r"
proof (cases ts)
  case Nil
  assume "ts \<noteq> []"
  with Nil show ?thesis by simp
next
  case (Cons t ts')
  obtain r where "stringify_Todo t = 0x7B # r" using stringify_Todo_Cons by blast
  then show ?thesis using Cons by (simp add: join_commas_Cons)
qed

lemma JSON_parse_stringify:
  "JSON_parse (JSON_stringify ts) = Some (JArr (map toJSON_Todo ts))"
proof (cases "ts = []")
  case True
  then show ?thesis
    by (simp add: JSON_parse_def JSON_stringify_def skip_ws_def json_ws_def parse_fuel_numeral)
next
  case False
  obtain r where r: "join_commas (map stringify_Todo ts) = 0x7B # r"
    using join_commas_head [OF False] by blast
  define F where "F = 2 * length (JSON_stringify ts) + 1"
  have "length ts + 6 \<le> F"
    using length_join_commas [of ts] False
    by (cases ts) (simp_all add: F_def JSON_stringify_def)
  then have pe: "parse_elements F (join_commas (map stringify_Todo ts) @ 0x5D # []) = Some (map toJSON_Todo ts, [])"
    by (rule parse_elements_Todos [OF False])
  have "parse_value (Suc F) (JSON_stringify ts) = Some (JArr (map toJSON_Todo ts), [])"
    using pe unfolding r by (simp add: JSON_stringify_def r skip_ws_def json_ws_def del: parse_elements.simps)
  moreover have "2 * length (JSON_stringify ts) + 2 = Suc F" by (simp add: F_def)
  ultimately show ?thesis
    by (simp add: JSON_parse_def skip_ws_def del: parse_value.simps)
qed

section \<open>Reloading what was saved\<close>

lemma new_Date_toJSON_Date:
  "valid_Date d \<Longrightarrow> new_Date host (Some (toJSON_Date d)) = Inr d"
  by (cases d) (simp_all add: valid_Date_def toJSON_Date_def new_Date_def parse_iso_toISOString TimeClip_def)

lemma get_createdAt_toJSON_Todo:
  "get_createdAt (toJSON_Todo todo) = Inr (Some (toJSON_Date (createdAt todo)))"
  by (simp add: get_createdAt_def toJSON_Todo_def js_def)

lemma as_Todo_revived:
  "as_Todo (spread (toJSON_Todo todo) @ [(js ''createdAt'', DateObj d)]) = Some (todo\<lparr>createdAt := d\<rparr>)"
  by (simp add: as_Todo_def spread_def toJSON_Todo_def obj_get_def js_def)

lemma revive_toJSON_Todo:
  "valid_Date (createdAt todo) \<Longrightarrow>
     revive host (toJSON_Todo todo)
       = Inr (spread (toJSON_Todo todo) @ [(js ''createdAt'', DateObj (createdAt todo))])"
  by (simp add: revive_def get_createdAt_toJSON_Todo new_Date_toJSON_Date)

lemma map_revive_toJSON_Todo:
  "list_all (\<lambda>todo. valid_Date (createdAt todo)) ts \<Longrightarrow>
     map_revive host (map toJSON_Todo ts)
       = Inr (map (\<lambda>todo. spread (toJSON_Todo todo) @ [(js ''createdAt'', DateObj (createdAt todo))]) ts)"
  by (induction ts) (simp_all add: revive_toJSON_Todo)

lemma those_as_Todo_revived:
  "those (map as_Todo
       (map (\<lambda>todo. spread (toJSON_Todo todo) @ [(js ''createdAt'', DateObj (createdAt todo))]) ts))
     = Some ts"
  by (induction ts) (simp_all add: as_Todo_revived)

lemma JSON_stringify_nonempty: "JSON_stringify ts \<noteq> []"
  by (simp add: JSON_stringify_def)

lemma load_todos_stringify:
  "list_all (\<lambda>todo. valid_Date (createdAt todo)) ts \<Longrightarrow>
     load_todos host (Some (JSON_stringify ts))
       = Loaded (map (\<lambda>todo. spread (toJSON_Todo todo) @ [(js ''createdAt'', DateObj (createdAt todo))]) ts)"
  by (simp add: load_todos_def JSON_stringify_nonempty JSON_parse_stringify map_revive_toJSON_Todo)

text \<open>Rewrite rules with which the functions above are evaluated on concrete inputs.\<close>

lemmas json_eval = JSON_parse_def js_def skip_ws_def json_ws_def consed_def unescape_def
  parse_fuel_numeral parse_number_def parse_int_part_def parse_digits_def parse_frac_def
  parse_exp_def is_digit_def hex4_def hex_val_def


lemmas load_eval = load_def load_todos_def revive_def get_createdAt_def new_Date_def spread_def
  as_Todo_def obj_get_def host_invalid_def

lemmas stringify_eval = save_def JSON_stringify_def stringify_Todo_def stringify_Date_def
  QuoteJSONString_def quote_unit_def is_lead_def is_trail_def js_def

section \<open>Claims about loading and saving\<close>

text \<open>The first instant of 2024, written by \<open>toISOString\<close>.\<close>

lemmas pad_numeral = pad.simps(2) [of "pred_numeral k" for k, folded numeral_eq_Suc]

lemma toISOString_example: "toISOString 1704067200000 = js ''2024-01-01T00:00:00.000Z''"
proof -
  have d: "Day 1704067200000 = 19723" "TimeWithinDay 1704067200000 = 0"
    by (simp_all add: Day_def TimeWithinDay_def msPerDay_def)
  have y: "YearFromDay 19723 = 2024"
    by (simp add: YearFromDay_def DayFromYear_def)
  have l: "InLeapYear 2024 = 1" "DayFromYear 2024 = 19723"
    by (simp_all add: InLeapYear_def DayFromYear_def)
  have m: "MonthFromDay 0 1 = 0" "month_start 0 1 = 0"
    by (simp_all add: MonthFromDay_def month_start_def)
  have ys: "year_string 2024 = js ''2024''"
    by (simp add: year_string_def pad_numeral digit_char_def js_def)
  have p: "pad 2 0 = js ''00''" "pad 2 (Suc 0) = js ''01''" "pad 3 0 = js ''000''"
    by (simp_all add: pad_numeral digit_char_def js_def)
  show ?thesis
    unfolding toISOString_def Let_def d y l m
    by (simp add: ys p m) (simp add: js_def)
qed

text \<open>
  C5, as stated, fails. An invalid date is written as \<open>null\<close>, and \<open>new Date(null)\<close> is
  the epoch: a collection holding a task with an invalid \<open>createdAt\<close> comes back with
  that \<open>createdAt\<close> changed to time value 0.
\<close>

theorem round_trip_invalid_date_counterexample:
  \<open>save (initial_state\<lparr>todos := [\<lparr>id_t = js ''1'', text_t = js ''a'', completed = False, createdAt = InvalidDate\<rparr>]\<rparr>)
     = js ''[{"id":"1","text":"a","completed":false,"createdAt":null}]'' \<and>
   load host_invalid (Some (save (initial_state\<lparr>todos := [\<lparr>id_t = js ''1'', text_t = js ''a'', completed = False, createdAt = InvalidDate\<rparr>]\<rparr>))) initial_state
     = Some (initial_state\<lparr>todos := [\<lparr>id_t = js ''1'', text_t = js ''a'', completed = False, createdAt = TimeValue 0\<rparr>]\<rparr>) \<and>
   load host_invalid (Some (save (initial_state\<lparr>todos := [\<lparr>id_t = js ''1'', text_t = js ''a'', completed = False, createdAt = InvalidDate\<rparr>]\<rparr>))) initial_state
     \<noteq> Some (initial_state\<lparr>todos := [\<lparr>id_t = js ''1'', text_t = js ''a'', completed = False, createdAt = InvalidDate\<rparr>]\<rparr>)\<close>
proof -
  have s: \<open>save (initial_state\<lparr>todos := [\<lparr>id_t = js ''1'', text_t = js ''a'', completed = False, createdAt = InvalidDate\<rparr>]\<rparr>)
     = js ''[{"id":"1","text":"a","completed":false,"createdAt":null}]''\<close>
    by (simp add: stringify_eval initial_state_def)
  have p: \<open>JSON_parse (js ''[{"id":"1","text":"a","completed":false,"createdAt":null}]'')
     = Some (JArr [JObj [(js ''id'', JStr (js ''1'')), (js ''text'', JStr (js ''a'')),
                         (js ''completed'', JBool False), (js ''createdAt'', JNull)]])\<close>
    by (simp add: json_eval)
  have l: \<open>load host_invalid (Some (js ''[{"id":"1","text":"a","completed":false,"createdAt":null}]'')) initial_state
     = Some (initial_state\<lparr>todos := [\<lparr>id_t = js ''1'', text_t = js ''a'', completed = False, createdAt = TimeValue 0\<rparr>]\<rparr>)\<close>
  proof -
    have ne: \<open>js ''[{"id":"1","text":"a","completed":false,"createdAt":null}]'' \<noteq> []\<close>
      by (simp add: js_def)
    show ?thesis
      by (simp add: load_def load_todos_def p ne) (simp add: load_eval js_def initial_state_def)
  qed
  show ?thesis unfolding s l using s by (simp add: initial_state_def)
qed

text \<open>
  C5, amended. When every task has a valid \<open>createdAt\<close>, loading what the save effect
  wrote gives the collection that was saved, timestamps included.
\<close>

theorem save_load_round_trip:
  "list_all (\<lambda>todo. valid_Date (createdAt todo)) (todos s) \<Longrightarrow>
     load host (Some (save s)) s' = Some (s'\<lparr>todos := todos s\<rparr>)"
  using those_as_Todo_revived [of "todos s"]
  by (simp add: load_def save_def load_todos_stringify del: map_map)

theorem save_load_round_trip_witness:
  \<open>list_all (\<lambda>todo. valid_Date (createdAt todo)) (todos (initial_state\<lparr>todos := [\<lparr>id_t = js ''1'', text_t = js ''a'', completed = False, createdAt = TimeValue 1704067200000\<rparr>]\<rparr>)) \<and>
   save (initial_state\<lparr>todos := [\<lparr>id_t = js ''1'', text_t = js ''a'', completed = False, createdAt = TimeValue 1704067200000\<rparr>]\<rparr>)
     = js ''[{"id":"1","text":"a","completed":false,"createdAt":"2024-01-01T00:00:00.000Z"}]'' \<and>
   load host_invalid (Some (save (initial_state\<lparr>todos := [\<lparr>id_t = js ''1'', text_t = js ''a'', completed = False, createdAt = TimeValue 1704067200000\<rparr>]\<rparr>))) initial_state
     = Some (initial_state\<lparr>todos := [\<lparr>id_t = js ''1'', text_t = js ''a'', completed = False, createdAt = TimeValue 1704067200000\<rparr>]\<rparr>)\<close>
proof -
  have h: "list_all (\<lambda>todo. valid_Date (createdAt todo)) (todos (initial_state\<lparr>todos := [\<lparr>id_t = js ''1'', text_t = js ''a'', completed = False, createdAt = TimeValue 1704067200000\<rparr>]\<rparr>))"
    by (simp add: valid_Date_def valid_time_def)
  have s: \<open>save (initial_state\<lparr>todos := [\<lparr>id_t = js ''1'', text_t = js ''a'', completed = False, createdAt = TimeValue 1704067200000\<rparr>]\<rparr>)
     = js ''[{"id":"1","text":"a","completed":false,"createdAt":"2024-01-01T00:00:00.000Z"}]''\<close>
    by (simp add: save_def JSON_stringify_def stringify_Todo_def stringify_Date_def
          toISOString_example)
       (simp add: QuoteJSONString_def quote_unit_def is_lead_def is_trail_def js_def)
  show ?thesis
    using h s save_load_round_trip [OF h, of host_invalid initial_state] by simp
qed
text \<open>
  The same for collections that also hold invalid dates: each of them is written as
  \<open>null\<close> and comes back as the epoch, and every other task comes back as it was.
\<close>

lemma new_Date_toJSON_Date_any:
  "valid_Date d \<or> d = InvalidDate \<Longrightarrow>
     new_Date host (Some (toJSON_Date d)) = Inr (if d = InvalidDate then TimeValue 0 else d)"
  by (cases d) (auto simp: valid_Date_def toJSON_Date_def new_Date_def parse_iso_toISOString TimeClip_def)

lemma map_revive_toJSON_Todo_any:
  "list_all (\<lambda>todo. valid_Date (createdAt todo) \<or> createdAt todo = InvalidDate) ts \<Longrightarrow>
     map_revive host (map toJSON_Todo ts)
       = Inr (map (\<lambda>todo. spread (toJSON_Todo todo) @
                     [(js ''createdAt'',
                       DateObj (if createdAt todo = InvalidDate then TimeValue 0 else createdAt todo))]) ts)"
  by (induction ts)
     (simp_all add: revive_def get_createdAt_toJSON_Todo new_Date_toJSON_Date_any)

lemma those_as_Todo_revived_any:
  "those (map as_Todo
       (map (\<lambda>todo. spread (toJSON_Todo todo) @
                     [(js ''createdAt'',
                       DateObj (if createdAt todo = InvalidDate then TimeValue 0 else createdAt todo))]) ts))
     = Some (map (\<lambda>todo. if createdAt todo = InvalidDate then todo\<lparr>createdAt := TimeValue 0\<rparr> else todo) ts)"
  by (induction ts) (simp_all add: as_Todo_revived)

lemma save_load_invalid_dates:
  "list_all (\<lambda>todo. valid_Date (createdAt todo) \<or> createdAt todo = InvalidDate) (todos s) \<Longrightarrow>
     load host (Some (save s)) s'
       = Some (s'\<lparr>todos := map (\<lambda>todo. if createdAt todo = InvalidDate
                                         then todo\<lparr>createdAt := TimeValue 0\<rparr> else todo) (todos s)\<rparr>)"
  using those_as_Todo_revived_any [of "todos s"]
  by (simp add: load_def save_def load_todos_def JSON_stringify_nonempty JSON_parse_stringify
        map_revive_toJSON_Todo_any del: map_map)

lemma map_revive_no_null: "map_revive host xs = Inr objs \<Longrightarrow> JNull \<notin> set xs"
proof (induction xs arbitrary: objs)
  case Nil
  show ?case by simp
next
  case (Cons x xs)
  then show ?case
    by (cases x) (auto simp: revive_def get_createdAt_def split: sum.splits)
qed

lemma map_revive_length: "map_revive host xs = Inr objs \<Longrightarrow> length objs = length xs"
  by (induction xs arbitrary: objs) (auto split: sum.splits)

lemma load_Caught: "load_todos host saved = Caught e \<Longrightarrow> load host saved s = Some s"
  by (simp add: load_def)

text \<open>
  C1, as stated, fails: a record whose shape is not the one of the persisted layout is
  not a failure. The snapshot below holds a record without \<open>createdAt\<close>; nothing is
  thrown, and the collection after the load has one task.
\<close>

theorem load_shape_mismatch_counterexample:
  \<open>JSON_parse (js ''[{"id":"1","text":"a","completed":false}]'') = Some (JArr [JObj [(js ''id'', JStr (js ''1'')), (js ''text'', JStr (js ''a'')), (js ''completed'', JBool False)]]) \<and>
   \<not> spec_record_shape (JObj [(js ''id'', JStr (js ''1'')), (js ''text'', JStr (js ''a'')), (js ''completed'', JBool False)]) \<and>
   load host_invalid (Some (js ''[{"id":"1","text":"a","completed":false}]'')) initial_state
     = Some (initial_state\<lparr>todos := [\<lparr>id_t = js ''1'', text_t = js ''a'', completed = False, createdAt = InvalidDate\<rparr>]\<rparr>) \<and>
   todos (initial_state\<lparr>todos := [\<lparr>id_t = js ''1'', text_t = js ''a'', completed = False, createdAt = InvalidDate\<rparr>]\<rparr>) \<noteq> []\<close>
proof -
  have p: \<open>JSON_parse (js ''[{"id":"1","text":"a","completed":false}]'') = Some (JArr [JObj [(js ''id'', JStr (js ''1'')), (js ''text'', JStr (js ''a'')), (js ''completed'', JBool False)]])\<close>
    by (simp add: json_eval)
  have ne: \<open>js ''[{"id":"1","text":"a","completed":false}]'' \<noteq> []\<close>
    by (simp add: js_def)
  have l: \<open>load host_invalid (Some (js ''[{"id":"1","text":"a","completed":false}]'')) initial_state
     = Some (initial_state\<lparr>todos := [\<lparr>id_t = js ''1'', text_t = js ''a'', completed = False, createdAt = InvalidDate\<rparr>]\<rparr>)\<close>
    by (simp add: load_def load_todos_def p ne) (simp add: load_eval js_def initial_state_def)
  have m: \<open>\<not> spec_record_shape (JObj [(js ''id'', JStr (js ''1'')), (js ''text'', JStr (js ''a'')), (js ''completed'', JBool False)])\<close>
    by (simp add: spec_record_shape_def js_def)
  show ?thesis using p l m by simp
qed

lemma revive_Inr_iff:
  "revive host x = Inr obj \<longleftrightarrow>
     (\<exists>v d. get_createdAt x = Inr v \<and> new_Date host v = Inr d \<and>
            obj = spread x @ [(js ''createdAt'', DateObj d)])"
  by (auto simp: revive_def split: sum.splits)

lemma map_revive_list_all2:
  "map_revive host xs = Inr objs \<Longrightarrow> list_all2 (\<lambda>x obj. revive host x = Inr obj) xs objs"
  by (induction xs arbitrary: objs) (auto split: sum.splits)

lemma map_revive_total:
  "list_all (\<lambda>x. \<exists>obj. revive host x = Inr obj) xs \<Longrightarrow> \<exists>objs. map_revive host xs = Inr objs"
  by (induction xs) auto

lemma get_createdAt_not_null: "get_createdAt x = Inr v \<Longrightarrow> x \<noteq> JNull"
  by (auto simp: get_createdAt_def)

lemma obj_get_revived_createdAt:
  "obj_get (ps @ [(js ''createdAt'', DateObj d)]) (js ''createdAt'') = Some (DateObj d)"
  by (simp add: obj_get_def)

lemma obj_get_revived_other:
  "k \<noteq> js ''createdAt'' \<Longrightarrow>
     obj_get (spread (JObj ms) @ [(js ''createdAt'', DateObj d)]) k = map_option Json (map_of (rev ms) k)"
  by (simp add: obj_get_def spread_def rev_map map_of_map)

lemma new_Date_absent: "new_Date host None = Inr InvalidDate"
  by (simp add: new_Date_def)

lemma revived_element:
  assumes "revive host x = Inr obj"
  shows "x \<noteq> JNull \<and>
         (\<exists>v d. get_createdAt x = Inr v \<and> new_Date host v = Inr d \<and>
                (v = None \<longrightarrow> d = InvalidDate) \<and>
                obj = spread x @ [(js ''createdAt'', DateObj d)] \<and>
                obj_get obj (js ''createdAt'') = Some (DateObj d) \<and>
                (\<forall>ms. x = JObj ms \<longrightarrow>
                   v = map_of (rev ms) (js ''createdAt'') \<and>
                   obj = map (\<lambda>(k, w). (k, Json w)) ms @ [(js ''createdAt'', DateObj d)] \<and>
                   (\<forall>k. k \<noteq> js ''createdAt'' \<longrightarrow>
                      obj_get obj k = map_option Json (map_of (rev ms) k))))"
proof -
  obtain v d where v: "get_createdAt x = Inr v" and d: "new_Date host v = Inr d"
    and o: "obj = spread x @ [(js ''createdAt'', DateObj d)]"
    using assms revive_Inr_iff by blast
  have n: "x \<noteq> JNull" using v by (rule get_createdAt_not_null)
  have a: "v = None \<longrightarrow> d = InvalidDate" using d by (auto simp: new_Date_absent)
  have g: "obj_get obj (js ''createdAt'') = Some (DateObj d)"
    unfolding o by (rule obj_get_revived_createdAt)
  have m: "v = map_of (rev ms) (js ''createdAt'') \<and>
           obj = map (\<lambda>(k, w). (k, Json w)) ms @ [(js ''createdAt'', DateObj d)] \<and>
           (\<forall>k. k \<noteq> js ''createdAt'' \<longrightarrow> obj_get obj k = map_option Json (map_of (rev ms) k))"
    if "x = JObj ms" for ms
    using that v o obj_get_revived_other [of _ ms d]
    by (auto simp: get_createdAt_def spread_def)
  show ?thesis using n v d a o g m by blast
qed

text \<open>
  C1, amended. When \<open>JSON.parse\<close> throws on the snapshot, when the parsed value is not an
  array, and when it is an array with a \<open>null\<close> element, the error is caught;
  whenever an error is caught it is logged and the state is as before, so an empty
  collection stays empty. There is no check of the records' shape: every array on whose
  elements the callback does not throw is passed to \<open>setTodos\<close>, element for element. Each
  object passed is the element's own properties followed by \<open>createdAt\<close>, which is the
  \<open>Date\<close> made from the element's \<open>createdAt\<close> and an invalid date when the element has
  none; for an element that is an object, every other property reads as in the element.
\<close>

theorem load_catches_failures:
  "saved \<noteq> [] \<Longrightarrow>
     (JSON_parse saved = None \<longrightarrow> load_todos host (Some saved) = Caught SyntaxError) \<and>
     (\<forall>v. JSON_parse saved = Some v \<and> \<not> is_array v \<longrightarrow>
          load_todos host (Some saved) = Caught TypeError) \<and>
     (\<forall>xs. JSON_parse saved = Some (JArr xs) \<and> JNull \<in> set xs \<longrightarrow>
          (\<exists>e. load_todos host (Some saved) = Caught e)) \<and>
     (\<forall>e. load_todos host (Some saved) = Caught e \<longrightarrow>
          console_output (load_todos host (Some saved))
            = [(js ''Failed to parse todos from localStorage'', e)] \<and>
          load host (Some saved) s = Some s \<and>
          load host (Some saved) initial_state = Some initial_state \<and> todos initial_state = []) \<and>
     (\<forall>xs objs. JSON_parse saved = Some (JArr xs) \<and> map_revive host xs = Inr objs \<longrightarrow>
          load_todos host (Some saved) = Loaded objs \<and> length objs = length xs \<and>
          list_all2
            (\<lambda>x obj. x \<noteq> JNull \<and>
              (\<exists>v d. get_createdAt x = Inr v \<and> new_Date host v = Inr d \<and>
                (v = None \<longrightarrow> d = InvalidDate) \<and>
                obj = spread x @ [(js ''createdAt'', DateObj d)] \<and>
                obj_get obj (js ''createdAt'') = Some (DateObj d) \<and>
                (\<forall>ms. x = JObj ms \<longrightarrow>
                   v = map_of (rev ms) (js ''createdAt'') \<and>
                   obj = map (\<lambda>(k, w). (k, Json w)) ms @ [(js ''createdAt'', DateObj d)] \<and>
                   (\<forall>k. k \<noteq> js ''createdAt'' \<longrightarrow>
                      obj_get obj k = map_option Json (map_of (rev ms) k)))))
            xs objs) \<and>
     (\<forall>xs. JSON_parse saved = Some (JArr xs) \<and>
           list_all (\<lambda>x. \<exists>v d. get_createdAt x = Inr v \<and> new_Date host v = Inr d) xs \<longrightarrow>
          (\<exists>objs. load_todos host (Some saved) = Loaded objs \<and>
             list_all2
               (\<lambda>x obj. x \<noteq> JNull \<and>
              (\<exists>v d. get_createdAt x = Inr v \<and> new_Date host v = Inr d \<and>
                (v = None \<longrightarrow> d = InvalidDate) \<and>
                obj = spread x @ [(js ''createdAt'', DateObj d)] \<and>
                obj_get obj (js ''createdAt'') = Some (DateObj d) \<and>
                (\<forall>ms. x = JObj ms \<longrightarrow>
                   v = map_of (rev ms) (js ''createdAt'') \<and>
                   obj = map (\<lambda>(k, w). (k, Json w)) ms @ [(js ''createdAt'', DateObj d)] \<and>
                   (\<forall>k. k \<noteq> js ''createdAt'' \<longrightarrow>
                      obj_get obj k = map_option Json (map_of (rev ms) k)))))
               xs objs))"
proof -
  assume ne: "saved \<noteq> []"
  have c1: "load_todos host (Some saved) = Caught SyntaxError" if "JSON_parse saved = None"
    using that ne by (simp add: load_todos_def)
  have c2: "load_todos host (Some saved) = Caught TypeError"
    if "JSON_parse saved = Some v \<and> \<not> is_array v" for v
    using that ne by (cases v) (simp_all add: load_todos_def is_array_def)
  have c3: "\<exists>e. load_todos host (Some saved) = Caught e"
    if h: "JSON_parse saved = Some (JArr xs) \<and> JNull \<in> set xs" for xs
  proof (cases "map_revive host xs")
    case (Inl e)
    then show ?thesis using h ne by (simp add: load_todos_def)
  next
    case (Inr objs)
    then show ?thesis using h map_revive_no_null [OF Inr] by simp
  qed
  have c4: "console_output (load_todos host (Some saved))
              = [(js ''Failed to parse todos from localStorage'', e)] \<and>
            load host (Some saved) s = Some s \<and>
            load host (Some saved) initial_state = Some initial_state \<and> todos initial_state = []"
    if h: "load_todos host (Some saved) = Caught e" for e
    using h load_Caught [OF h] by (simp add: console_output_def initial_state_def)
  have el: "list_all2
            (\<lambda>x obj. x \<noteq> JNull \<and>
              (\<exists>v d. get_createdAt x = Inr v \<and> new_Date host v = Inr d \<and>
                (v = None \<longrightarrow> d = InvalidDate) \<and>
                obj = spread x @ [(js ''createdAt'', DateObj d)] \<and>
                obj_get obj (js ''createdAt'') = Some (DateObj d) \<and>
                (\<forall>ms. x = JObj ms \<longrightarrow>
                   v = map_of (rev ms) (js ''createdAt'') \<and>
                   obj = map (\<lambda>(k, w). (k, Json w)) ms @ [(js ''createdAt'', DateObj d)] \<and>
                   (\<forall>k. k \<noteq> js ''createdAt'' \<longrightarrow>
                      obj_get obj k = map_option Json (map_of (rev ms) k)))))
            xs objs"
    if h: "map_revive host xs = Inr objs" for xs objs
    by (rule list_all2_mono [OF map_revive_list_all2 [OF h]]) (rule revived_element)
  have c5: "load_todos host (Some saved) = Loaded objs \<and> length objs = length xs \<and>
          list_all2
            (\<lambda>x obj. x \<noteq> JNull \<and>
              (\<exists>v d. get_createdAt x = Inr v \<and> new_Date host v = Inr d \<and>
                (v = None \<longrightarrow> d = InvalidDate) \<and>
                obj = spread x @ [(js ''createdAt'', DateObj d)] \<and>
                obj_get obj (js ''createdAt'') = Some (DateObj d) \<and>
                (\<forall>ms. x = JObj ms \<longrightarrow>
                   v = map_of (rev ms) (js ''createdAt'') \<and>
                   obj = map (\<lambda>(k, w). (k, Json w)) ms @ [(js ''createdAt'', DateObj d)] \<and>
                   (\<forall>k. k \<noteq> js ''createdAt'' \<longrightarrow>
                      obj_get obj k = map_option Json (map_of (rev ms) k)))))
            xs objs"
    if h: "JSON_parse saved = Some (JArr xs) \<and> map_revive host xs = Inr objs" for xs objs
  proof -
    have "load_todos host (Some saved) = Loaded objs"
      using h ne by (simp add: load_todos_def)
    moreover have "length objs = length xs" using h map_revive_length by blast
    ultimately show ?thesis using el h by blast
  qed
  have c6: "\<exists>objs. load_todos host (Some saved) = Loaded objs \<and>
             list_all2
               (\<lambda>x obj. x \<noteq> JNull \<and>
              (\<exists>v d. get_createdAt x = Inr v \<and> new_Date host v = Inr d \<and>
                (v = None \<longrightarrow> d = InvalidDate) \<and>
                obj = spread x @ [(js ''createdAt'', DateObj d)] \<and>
                obj_get obj (js ''createdAt'') = Some (DateObj d) \<and>
                (\<forall>ms. x = JObj ms \<longrightarrow>
                   v = map_of (rev ms) (js ''createdAt'') \<and>
                   obj = map (\<lambda>(k, w). (k, Json w)) ms @ [(js ''createdAt'', DateObj d)] \<and>
                   (\<forall>k. k \<noteq> js ''createdAt'' \<longrightarrow>
                      obj_get obj k = map_option Json (map_of (rev ms) k)))))
               xs objs"
    if h: "JSON_parse saved = Some (JArr xs) \<and>
           list_all (\<lambda>x. \<exists>v d. get_createdAt x = Inr v \<and> new_Date host v = Inr d) xs" for xs
  proof -
    have "list_all (\<lambda>x. \<exists>obj. revive host x = Inr obj) xs"
      using h by (auto simp: list_all_iff revive_Inr_iff)
    then obtain objs where o: "map_revive host xs = Inr objs"
      using map_revive_total by blast
    then show ?thesis using c5 [of xs objs] h by blast
  qed
  show ?thesis using c1 c2 c3 c4 c5 c6 by blast
qed

theorem load_catches_failures_witness:
  \<open>load_todos host_invalid (Some (js ''{oops'')) = Caught SyntaxError \<and>
   console_output (load_todos host_invalid (Some (js ''{oops'')))
     = [(js ''Failed to parse todos from localStorage'', SyntaxError)] \<and>
   load host_invalid (Some (js ''{oops'')) initial_state = Some initial_state \<and>
   load_todos host_invalid (Some (js ''{"a":1}'')) = Caught TypeError \<and>
   load host_invalid (Some (js ''{"a":1}'')) initial_state = Some initial_state \<and>
   (\<exists>e. load_todos host_invalid (Some (js ''[null]'')) = Caught e) \<and>
   load host_invalid (Some (js ''[null]'')) initial_state = Some initial_state \<and>
   list_all (\<lambda>x. \<exists>v d. get_createdAt x = Inr v \<and> new_Date host_invalid v = Inr d) [JObj [(js ''id'', JStr (js ''1'')), (js ''text'', JStr (js ''a'')), (js ''completed'', JBool False)]] \<and>
   load_todos host_invalid (Some (js ''[{"id":"1","text":"a","completed":false}]'')) = Loaded [[(js ''id'', Json (JStr (js ''1''))), (js ''text'', Json (JStr (js ''a''))), (js ''completed'', Json (JBool False)), (js ''createdAt'', DateObj InvalidDate)]] \<and>
   obj_get ([(js ''id'', Json (JStr (js ''1''))), (js ''text'', Json (JStr (js ''a''))), (js ''completed'', Json (JBool False)), (js ''createdAt'', DateObj InvalidDate)]) (js ''createdAt'') = Some (DateObj InvalidDate) \<and>
   obj_get ([(js ''id'', Json (JStr (js ''1''))), (js ''text'', Json (JStr (js ''a''))), (js ''completed'', Json (JBool False)), (js ''createdAt'', DateObj InvalidDate)]) (js ''text'') = Some (Json (JStr (js ''a'')))\<close>
proof -
  have a: \<open>js ''{oops'' \<noteq> []\<close> \<open>JSON_parse (js ''{oops'') = None\<close>
    by (simp_all add: json_eval)
  have b: \<open>js ''{"a":1}'' \<noteq> []\<close>
    \<open>JSON_parse (js ''{"a":1}'') = Some (JObj [(js ''a'', JNum (js ''1''))])\<close>
    \<open>\<not> is_array (JObj [(js ''a'', JNum (js ''1''))])\<close>
    by (simp_all add: json_eval is_array_def)
  have c: \<open>js ''[null]'' \<noteq> []\<close> \<open>JSON_parse (js ''[null]'') = Some (JArr [JNull])\<close>
    by (simp_all add: json_eval)
  have d: \<open>js ''[{"id":"1","text":"a","completed":false}]'' \<noteq> []\<close>
    \<open>JSON_parse (js ''[{"id":"1","text":"a","completed":false}]'') = Some (JArr [JObj [(js ''id'', JStr (js ''1'')), (js ''text'', JStr (js ''a'')), (js ''completed'', JBool False)]])\<close>
    \<open>map_revive host_invalid [JObj [(js ''id'', JStr (js ''1'')), (js ''text'', JStr (js ''a'')), (js ''completed'', JBool False)]] = Inr [[(js ''id'', Json (JStr (js ''1''))), (js ''text'', Json (JStr (js ''a''))), (js ''completed'', Json (JBool False)), (js ''createdAt'', DateObj InvalidDate)]]\<close>
    by (simp_all add: json_eval load_eval)
  have e: \<open>list_all (\<lambda>x. \<exists>v d. get_createdAt x = Inr v \<and> new_Date host_invalid v = Inr d) [JObj [(js ''id'', JStr (js ''1'')), (js ''text'', JStr (js ''a'')), (js ''completed'', JBool False)]]\<close>
    by (simp add: get_createdAt_def new_Date_def js_def)
  have g: \<open>obj_get ([(js ''id'', Json (JStr (js ''1''))), (js ''text'', Json (JStr (js ''a''))), (js ''completed'', Json (JBool False)), (js ''createdAt'', DateObj InvalidDate)]) (js ''createdAt'') = Some (DateObj InvalidDate)\<close>
    \<open>obj_get ([(js ''id'', Json (JStr (js ''1''))), (js ''text'', Json (JStr (js ''a''))), (js ''completed'', Json (JBool False)), (js ''createdAt'', DateObj InvalidDate)]) (js ''text'') = Some (Json (JStr (js ''a'')))\<close>
    by (simp_all add: obj_get_def js_def)
  have 1: \<open>load_todos host_invalid (Some (js ''{oops'')) = Caught SyntaxError \<and>
     console_output (load_todos host_invalid (Some (js ''{oops'')))
       = [(js ''Failed to parse todos from localStorage'', SyntaxError)] \<and>
     load host_invalid (Some (js ''{oops'')) initial_state = Some initial_state\<close>
    using load_catches_failures [OF a(1), of host_invalid initial_state] a(2) by simp
  have 2: \<open>load_todos host_invalid (Some (js ''{"a":1}'')) = Caught TypeError \<and>
     load host_invalid (Some (js ''{"a":1}'')) initial_state = Some initial_state\<close>
    using load_catches_failures [OF b(1), of host_invalid initial_state] b(2,3) by simp
  have 3: \<open>(\<exists>e. load_todos host_invalid (Some (js ''[null]'')) = Caught e) \<and>
     load host_invalid (Some (js ''[null]'')) initial_state = Some initial_state\<close>
    using load_catches_failures [OF c(1), of host_invalid initial_state] c(2) by auto
  have 4: \<open>load_todos host_invalid (Some (js ''[{"id":"1","text":"a","completed":false}]'')) = Loaded [[(js ''id'', Json (JStr (js ''1''))), (js ''text'', Json (JStr (js ''a''))), (js ''completed'', Json (JBool False)), (js ''createdAt'', DateObj InvalidDate)]]\<close>
    using load_catches_failures [OF d(1), of host_invalid initial_state] d(2,3) e
    by (auto simp del: map_revive.simps)
  show ?thesis using 1 2 3 4 e g by blast
qed


section \<open>Claims about runs of the component\<close>






















text \<open>
  C3. \<open>addTodo\<close> takes the id from the clock, and nothing compares it with the ids in
  the collection. Two tasks added at the same clock reading have the same id: the
  second one is put in front with an id that is not fresh.
\<close>

theorem addTodo_same_clock_reading:
  "todos (addTodo 1000 (TimeValue 1000) (setNewTodo (js ''b'')
            (addTodo 1000 (TimeValue 1000) (setNewTodo (js ''a'') initial_state))))
     = [\<lparr>id_t = js ''1000'', text_t = js ''b'', completed = False, createdAt = TimeValue 1000\<rparr>,
        \<lparr>id_t = js ''1000'', text_t = js ''a'', completed = False, createdAt = TimeValue 1000\<rparr>] \<and>
   \<not> distinct (map id_t (todos (addTodo 1000 (TimeValue 1000) (setNewTodo (js ''b'')
            (addTodo 1000 (TimeValue 1000) (setNewTodo (js ''a'') initial_state))))))"
  by (simp add: initial_state_def setNewTodo_def addTodo_def trim_def is_ws_def js_def
      Number_toString_def nat_dec.simps)

end
